theory Spec2Isabelle
  imports Complex_Main
begin

section \<open>Strings as the program uses them\<close>

text \<open>
  A JavaScript string whose code units are all below 256 is modelled as the list of those
  code units (\<open>string\<close>).  The string methods the program calls are written out:
  \<open>includes\<close> (here \<open>includes_str\<close>), \<open>toLowerCase\<close> and \<open>trim\<close>.
\<close>

fun startsWith :: "string \<Rightarrow> string \<Rightarrow> bool" where
  "startsWith s [] = True"
| "startsWith [] (c # cs) = False"
| "startsWith (x # xs) (c # cs) = (x = c \<and> startsWith xs cs)"

fun includes_str :: "string \<Rightarrow> string \<Rightarrow> bool" where
  "includes_str [] sub = (sub = [])"
| "includes_str (x # xs) sub = (startsWith (x # xs) sub \<or> includes_str xs sub)"



definition isWhiteSpace :: "char \<Rightarrow> bool" where
  \<comment> \<open>TAB, LF, VT, FF, CR, SPACE and NO-BREAK SPACE: the white space and line terminators
      of the language below code unit 256.\<close>
  "isWhiteSpace c = (of_char c \<in> {9, 10, 11, 12, 13, 32, 160 :: nat})"

definition trim :: "string \<Rightarrow> string" where
  "trim s = rev (dropWhile isWhiteSpace (rev (dropWhile isWhiteSpace s)))"

section \<open>The error classifier (\<open>utils/error.ts\<close>)\<close>

text \<open>
  The argument of \<open>getApiErrorMessage\<close> has type \<open>any\<close>.  Of a value the function
  reads its truthiness, whether it is an \<open>Error\<close> instance, whether it is a string, and
  its properties \<open>message\<close> and \<open>error\<close>; a value is modelled by exactly that.  A
  property that is absent is \<open>Undefined\<close>.  The \<open>message\<close> of an \<open>Error\<close> instance is
  a property like any other: it may hold a value that is not a string.

  The function calls \<open>toLowerCase\<close> on what it extracted; on a value that is not a string
  this call throws a \<open>TypeError\<close>, which the function does not catch.  The result is
  therefore the sentence returned (\<open>Inr\<close>) or the exception thrown (\<open>Inl\<close>).
\<close>

datatype exn = TypeError



















subsection \<open>The classifier as the specification words it\<close>





section \<open>The welcome audio (\<open>generateWelcomeAudio\<close>)\<close>

text \<open>
  The model call \<open>ai.models.generateContent\<close> is outside the program: it is a parameter
  that, given the text to speak, either rejects or fulfils with a response.  Of the response
  the function reads \<open>candidates?.[0]?.content?.parts?.[0]?.inlineData?.data\<close>; every
  level may be absent.  The eight welcome texts are named by their language (most of them
  are not Latin-1 strings); only the choice between them is modelled.  The result is the
  settled state of the promise the \<open>async\<close> function returns.
\<close>

datatype 'a settled = Fulfilled 'a | Rejected

datatype Part = Part (inlineData: "string option option")

datatype Content = Content (parts: "Part list option")

datatype Candidate = Candidate (content: "Content option")

datatype GenerateContentResponse = GenerateContentResponse (candidates: "Candidate list option")

datatype welcomeText =
  WelcomeEnglish | WelcomeSpanish | WelcomeFrench | WelcomeGerman | WelcomeJapanese
| WelcomeMandarin | WelcomeHindi | WelcomePortuguese

definition welcomeMessages :: "(string \<times> welcomeText) list" where
  "welcomeMessages =
    [(''English'', WelcomeEnglish), (''Spanish'', WelcomeSpanish), (''French'', WelcomeFrench),
     (''German'', WelcomeGerman), (''Japanese'', WelcomeJapanese),
     (''Mandarin Chinese'', WelcomeMandarin), (''Hindi'', WelcomeHindi),
     (''Portuguese'', WelcomePortuguese)]"

fun first :: "'a list \<Rightarrow> 'a option" where
  \<comment> \<open>\<open>xs[0]\<close>, undefined on the empty array\<close>
  "first [] = None"
| "first (x # xs) = Some x"

definition base64AudioOf :: "GenerateContentResponse \<Rightarrow> string option" where
  "base64AudioOf response =
     Option.bind (Option.bind (Option.bind (Option.bind (Option.bind (Option.bind
       (candidates response) first) content) parts) first) inlineData) id"

definition welcomeTextFor :: "string \<Rightarrow> welcomeText" where
  \<comment> \<open>\<open>welcomeMessages[language] || welcomeMessages['English']\<close>\<close>
  "welcomeTextFor lang =
     (case map_of welcomeMessages lang of Some t \<Rightarrow> t | None \<Rightarrow> WelcomeEnglish)"

definition generateWelcomeAudio ::
  "(welcomeText \<Rightarrow> GenerateContentResponse settled) \<Rightarrow> string \<Rightarrow> string settled" where
  "generateWelcomeAudio generateContent lang =
     (let text = welcomeTextFor lang
      in case generateContent text of
           Rejected \<Rightarrow> Fulfilled []
         | Fulfilled response \<Rightarrow>
             (case base64AudioOf response of
                None \<Rightarrow> Fulfilled []
              | Some base64Audio \<Rightarrow>
                  if base64Audio = [] then Fulfilled [] else Fulfilled base64Audio))"

section \<open>The reducer (\<open>appReducer\<close>)\<close>

datatype InterviewState = IDLE | CONNECTING | IN_CONVERSATION | SUMMARIZING | FINISHED | ERROR

datatype Speaker = Interviewer | You

record TranscriptEntry =
  speaker :: Speaker
  entryText :: string

record AppState =
  script :: string
  interviewState :: InterviewState
  transcript :: "TranscriptEntry list"
  currentInterviewerText :: string
  currentUserText :: string
  summary :: "string option"
  error :: "string option"
  language :: string
  micGain :: real
  speakerVolume :: real

text \<open>\<open>Partial<AppState>\<close>: each field present or not.\<close>

record PartialAppState =
  p_script :: "string option"
  p_interviewState :: "InterviewState option"
  p_transcript :: "TranscriptEntry list option"
  p_currentInterviewerText :: "string option"
  p_currentUserText :: "string option"
  p_summary :: "string option option"
  p_error :: "string option option"
  p_language :: "string option"
  p_micGain :: "real option"
  p_speakerVolume :: "real option"

datatype AppAction =
    SET_STATE PartialAppState
  | START_CONNECTING string string      \<comment> \<open>script, language\<close>
  | CONNECTION_ESTABLISHED
  | UPDATE_TRANSCRIPTIONS string string \<comment> \<open>user, interviewer\<close>
  | FINALIZE_TURN string string         \<comment> \<open>user, interviewer\<close>
  | START_SUMMARIZING
  | FINISH_INTERVIEW string
  | SET_ERROR string
  | RESET

definition initialState :: AppState where
  "initialState =
     \<lparr> script = ''Conduct a 15-minute interview for a senior product manager role. Focus on strategy, execution, and leadership. Start by introducing yourself.'',
       interviewState = IDLE,
       transcript = [],
       currentInterviewerText = [],
       currentUserText = [],
       summary = None,
       error = None,
       language = ''English'',
       micGain = 1,
       speakerVolume = 1 \<rparr>"

definition orElse :: "'a option \<Rightarrow> 'a \<Rightarrow> 'a" where
  "orElse v d = (case v of Some x \<Rightarrow> x | None \<Rightarrow> d)"

fun appReducer :: "AppState \<Rightarrow> AppAction \<Rightarrow> AppState" where
  "appReducer state (SET_STATE p) =
     \<lparr> script = orElse (p_script p) (script state),
       interviewState = orElse (p_interviewState p) (interviewState state),
       transcript = orElse (p_transcript p) (transcript state),
       currentInterviewerText = orElse (p_currentInterviewerText p) (currentInterviewerText state),
       currentUserText = orElse (p_currentUserText p) (currentUserText state),
       summary = orElse (p_summary p) (summary state),
       error = orElse (p_error p) (error state),
       language = orElse (p_language p) (language state),
       micGain = orElse (p_micGain p) (micGain state),
       speakerVolume = orElse (p_speakerVolume p) (speakerVolume state) \<rparr>"
| "appReducer state (START_CONNECTING scr lang) =
     state\<lparr> script := scr, language := lang, interviewState := CONNECTING, error := None,
            transcript := [], currentInterviewerText := [], currentUserText := [],
            summary := None \<rparr>"
| "appReducer state CONNECTION_ESTABLISHED = state\<lparr> interviewState := IN_CONVERSATION \<rparr>"
| "appReducer state (UPDATE_TRANSCRIPTIONS user interviewer) =
     state\<lparr> currentUserText := user, currentInterviewerText := interviewer \<rparr>"
| "appReducer state (FINALIZE_TURN user interviewer) =
     (let newTranscript = transcript state;
          newTranscript = (if user \<noteq> []
                           then newTranscript @ [\<lparr> speaker = You, entryText = user \<rparr>]
                           else newTranscript);
          newTranscript = (if interviewer \<noteq> []
                           then newTranscript @ [\<lparr> speaker = Interviewer, entryText = interviewer \<rparr>]
                           else newTranscript)
      in state\<lparr> transcript := newTranscript, currentUserText := [],
                currentInterviewerText := [] \<rparr>)"
| "appReducer state START_SUMMARIZING = state\<lparr> interviewState := SUMMARIZING \<rparr>"
| "appReducer state (FINISH_INTERVIEW result) =
     state\<lparr> interviewState := FINISHED, summary := Some result \<rparr>"
| "appReducer state (SET_ERROR msg) = state\<lparr> interviewState := ERROR, error := Some msg \<rparr>"
| "appReducer state RESET = initialState"

section \<open>Numbers\<close>

text \<open>
  The times of the output timeline are values of the language's number type, IEEE 754
  binary64.  A finite number is the real it denotes; \<open>Math.max\<close> and the comparisons are
  exact on these.  An addition gives the sum rounded to the nearest binary64 number, ties
  to the even significand: around a positive \<open>x\<close> the numbers are \<open>ulp x\<close> apart, 53 bits
  of significand in the binade of \<open>x\<close>, and the binades below exponent \<open>-1022\<close> share the
  spacing of that one (the subnormal numbers).  The exponent is not bounded above here: a
  sum of magnitude \<open>2 ^ 1024\<close> or more, which the machine gives as \<open>Infinity\<close>, lies
  outside this model, as does \<open>NaN\<close>.
\<close>

definition roundHalfEven :: "real \<Rightarrow> int" where
  "roundHalfEven x =
     (let f = \<lfloor>x\<rfloor>; r = x - of_int f
      in if r < 1 / 2 then f else if 1 / 2 < r then f + 1 else if even f then f else f + 1)"

definition binade :: "real \<Rightarrow> int" where
  "binade x = max \<lfloor>log 2 x\<rfloor> (- 1022)"

definition ulp :: "real \<Rightarrow> real" where
  "ulp x = 2 powr (of_int (binade x) - 52)"

definition roundDouble :: "real \<Rightarrow> real" where
  "roundDouble x =
     (if 0 < x then of_int (roundHalfEven (x / ulp x)) * ulp x
      else if x < 0 then - (of_int (roundHalfEven (- x / ulp (- x))) * ulp (- x))
      else 0)"

definition addDouble :: "real \<Rightarrow> real \<Rightarrow> real" where
  \<comment> \<open>\<open>a + b\<close> on numbers\<close>
  "addDouble a b = roundDouble (a + b)"

definition isDouble :: "real \<Rightarrow> bool" where
  "isDouble x = (roundDouble x = x)"

definition isTime :: "real \<Rightarrow> bool" where
  \<comment> \<open>a finite number that is not negative: a time or a duration in seconds\<close>
  "isTime x = (0 \<le> x \<and> isDouble x \<and> x < 2 ^ 1024)"

definition sumDouble :: "real list \<Rightarrow> real" where
  \<comment> \<open>the numbers of a list added up from 0, in order, each partial sum rounded\<close>
  "sumDouble ds = foldl addDouble 0 ds"

section \<open>The interview component (\<open>App\<close>)\<close>

text \<open>
  The component keeps its state in refs, next to the reducer state.  A ref to a browser
  object (an audio node, a context, the session promise, a timer) holds the identity of
  that object, a natural number, or \<open>None\<close> for \<open>null\<close>; the media stream is the list of
  its tracks.  The browser's side is explicit: \<open>timeouts\<close> are the pending timeouts
  (identity and the time in milliseconds when each is due), \<open>closeRequests\<close> are the
  session promises on which a reaction that closes the session waits to run, \<open>fresh\<close> is
  the identity of the next object created, and \<open>effects\<close> records, in order, the calls
  the component makes on browser objects.

  Each handler runs to its end, or to the exception that ends it, before the next one
  starts.  A handler that throws leaves the state as it was at the throw.  Creating,
  connecting, starting and stopping audio nodes are taken to succeed.  Of \<open>utils/audio\<close>,
  \<open>calculateRMS\<close> is a parameter of the capture callback, and
  \<open>decodeAudioData(decode(...))\<close> is a parameter of the message handler: for a payload it
  rejects, or fulfils with a buffer, of which only the duration is read.  The capture
  callback's \<open>sendRealtimeInput\<close> is recorded where the callback asks for it.
\<close>

datatype effect =
    SendRealtimeInput nat       \<comment> \<open>\<open>session.sendRealtimeInput\<close> on the session of this promise\<close>
  | SessionClose nat            \<comment> \<open>\<open>session.close()\<close>\<close>
  | Disconnect nat              \<comment> \<open>\<open>node.disconnect()\<close>\<close>
  | TrackStop nat               \<comment> \<open>\<open>track.stop()\<close>\<close>
  | ContextClose nat            \<comment> \<open>\<open>context.close()\<close>\<close>
  | SourceConnect nat nat       \<comment> \<open>\<open>source.connect(outputGainNode)\<close>\<close>
  | SourceStart nat real        \<comment> \<open>\<open>source.start(when)\<close>\<close>
  | SourceStop nat              \<comment> \<open>\<open>source.stop()\<close>\<close>

record App =
  appState :: AppState
  sessionPromise :: "nat option"
  inputAudioContext :: "nat option"
  outputAudioContext :: "nat option"
  scriptProcessorNode :: "nat option"
  mediaStreamSource :: "nat option"
  inputGainNode :: "nat option"
  outputGainNode :: "nat option"
  userMediaStream :: "nat list option"
  silenceTimerRef :: "nat option"
  hasSpokenInTurnRef :: bool
  isSilentRef :: bool
  currentInterviewerTextRef :: string
  currentUserTextRef :: string
  audioSources :: "nat list"
  nextStartTime :: real
  timeouts :: "(nat \<times> nat) list"
  closeRequests :: "nat list"
  fresh :: nat
  effects :: "effect list"

definition initialApp :: App where
  "initialApp =
     \<lparr> appState = initialState,
       sessionPromise = None,
       inputAudioContext = None,
       outputAudioContext = None,
       scriptProcessorNode = None,
       mediaStreamSource = None,
       inputGainNode = None,
       outputGainNode = None,
       userMediaStream = None,
       silenceTimerRef = None,
       hasSpokenInTurnRef = False,
       isSilentRef = False,
       currentInterviewerTextRef = [],
       currentUserTextRef = [],
       audioSources = [],
       nextStartTime = 0,
       timeouts = [],
       closeRequests = [],
       fresh = 1,
       effects = [] \<rparr>"

definition SILENCE_THRESHOLD :: real where
  "SILENCE_THRESHOLD = 0.01"

definition SILENCE_DURATION_MS :: nat where
  "SILENCE_DURATION_MS = 1500"

definition dispatch :: "AppAction \<Rightarrow> App \<Rightarrow> App" where
  "dispatch action s = s\<lparr> appState := appReducer (appState s) action \<rparr>"

definition perform :: "effect list \<Rightarrow> App \<Rightarrow> App" where
  "perform es s = s\<lparr> effects := effects s @ es \<rparr>"

subsection \<open>Timeouts\<close>

definition clearTimeout :: "nat \<Rightarrow> App \<Rightarrow> App" where
  "clearTimeout h s = s\<lparr> timeouts := filter (\<lambda>(i, due). i \<noteq> h) (timeouts s) \<rparr>"

definition clearSilenceTimer :: "App \<Rightarrow> App" where
  \<comment> \<open>\<open>if (silenceTimerRef.current) { clearTimeout(...); silenceTimerRef.current = null; }\<close>\<close>
  "clearSilenceTimer s =
     (case silenceTimerRef s of
        Some h \<Rightarrow> (clearTimeout h s)\<lparr> silenceTimerRef := None \<rparr>
      | None \<Rightarrow> s)"

definition silenceTimeout :: "App \<Rightarrow> App" where
  \<comment> \<open>the callback given to \<open>setTimeout\<close>\<close>
  "silenceTimeout s = s\<lparr> isSilentRef := True \<rparr>"

definition startSilenceTimer :: "nat \<Rightarrow> App \<Rightarrow> App" where
  \<comment> \<open>\<open>silenceTimerRef.current = setTimeout(..., SILENCE_DURATION_MS)\<close> at time \<open>now\<close>\<close>
  "startSilenceTimer now s =
     s\<lparr> timeouts := timeouts s @ [(fresh s, now + SILENCE_DURATION_MS)],
        silenceTimerRef := Some (fresh s),
        fresh := Suc (fresh s) \<rparr>"

definition runTimeouts :: "nat \<Rightarrow> App \<Rightarrow> App" where
  \<comment> \<open>The browser at time \<open>now\<close>: every pending timeout that is due leaves the table
      and its callback runs.\<close>
  "runTimeouts now s =
     fold (\<lambda>t. silenceTimeout)
       (filter (\<lambda>(i, due). due \<le> now) (timeouts s))
       (s\<lparr> timeouts := filter (\<lambda>(i, due). \<not> due \<le> now) (timeouts s) \<rparr>)"

subsection \<open>The capture callback (\<open>onaudioprocess\<close>)\<close>

definition onaudioprocess :: "nat \<Rightarrow> real \<Rightarrow> App \<Rightarrow> App" where
  \<comment> \<open>\<open>now\<close>: the time of the callback; \<open>rms\<close>: what \<open>calculateRMS\<close> gives for the frame\<close>
  "onaudioprocess now rms s =
     (let s1 = (if rms > SILENCE_THRESHOLD
                then (clearSilenceTimer s)\<lparr> isSilentRef := False \<rparr>
                else if hasSpokenInTurnRef s \<and> silenceTimerRef s = None
                     then startSilenceTimer now s
                     else s)
      in if \<not> isSilentRef s1
         then (case sessionPromise s1 of
                 Some p \<Rightarrow> perform [SendRealtimeInput p] s1
               | None \<Rightarrow> s1)
         else s1)"

subsection \<open>The session's messages (\<open>onmessage\<close>)\<close>

text \<open>
  A message has the shape the handler reads: an optional \<open>serverContent\<close> with an optional
  \<open>modelTurn\<close> (a content: optional \<open>parts\<close>, each with an optional \<open>inlineData\<close> whose
  \<open>data\<close> is optional), the flags \<open>interrupted\<close> and \<open>turnComplete\<close>, and the optional
  \<open>outputTranscription\<close> and \<open>inputTranscription\<close>, each with an optional \<open>text\<close>.

  The handler is an \<open>async\<close> function with no \<open>try\<close>: where an expression throws, or the
  awaited decoding rejects, the rest of the handler does not run.  Its result is the state,
  marked \<open>Completed\<close> when the handler ran to its end and \<open>Aborted\<close> when it threw.
\<close>

datatype 'a outcome = Completed 'a | Aborted 'a

fun stateAfter :: "'a outcome \<Rightarrow> 'a" where
  "stateAfter (Completed s) = s"
| "stateAfter (Aborted s) = s"

definition andThen :: "'a outcome \<Rightarrow> ('a \<Rightarrow> 'a outcome) \<Rightarrow> 'a outcome" where
  "andThen r f = (case r of Completed s \<Rightarrow> f s | Aborted s \<Rightarrow> Aborted s)"

datatype Transcription = Transcription (transcriptionText: "string option")

record LiveServerContent =
  modelTurn :: "Content option"
  interrupted :: bool
  outputTranscription :: "Transcription option"
  inputTranscription :: "Transcription option"
  turnComplete :: bool

record LiveServerMessage =
  serverContent :: "LiveServerContent option"

definition isInterrupted :: "LiveServerMessage \<Rightarrow> bool" where
  \<comment> \<open>\<open>message.serverContent?.interrupted\<close>\<close>
  "isInterrupted message =
     (case serverContent message of Some sc \<Rightarrow> interrupted sc | None \<Rightarrow> False)"

definition isTurnComplete :: "LiveServerMessage \<Rightarrow> bool" where
  \<comment> \<open>\<open>message.serverContent?.turnComplete\<close>\<close>
  "isTurnComplete message =
     (case serverContent message of Some sc \<Rightarrow> turnComplete sc | None \<Rightarrow> False)"

definition messageAudio :: "LiveServerMessage \<Rightarrow> exn + string option" where
  \<comment> \<open>\<open>message.serverContent?.modelTurn?.parts[0]?.inlineData.data\<close>: indexing \<open>parts\<close> that
      is absent throws, and so does reading \<open>data\<close> of an \<open>inlineData\<close> that is absent\<close>
  "messageAudio message =
     (case serverContent message of
        None \<Rightarrow> Inr None
      | Some sc \<Rightarrow>
          (case modelTurn sc of
             None \<Rightarrow> Inr None
           | Some turn \<Rightarrow>
               (case parts turn of
                  None \<Rightarrow> Inl TypeError
                | Some [] \<Rightarrow> Inr None
                | Some (part # ps) \<Rightarrow>
                    (case inlineData part of
                       None \<Rightarrow> Inl TypeError
                     | Some d \<Rightarrow> Inr d))))"

definition scheduleAudio ::
  "(string \<Rightarrow> real settled) \<Rightarrow> real \<Rightarrow> string option \<Rightarrow> App \<Rightarrow> App outcome" where
  \<comment> \<open>\<open>currentTime\<close>: \<open>outputAudioContext.current.currentTime\<close>.  The cursor moves to the
      maximum before the decoding is awaited.\<close>
  "scheduleAudio decodeAudioData currentTime base64Audio s =
     (case (base64Audio, outputAudioContext s, outputGainNode s) of
        (Some b, Some ctx, Some gain) \<Rightarrow>
          if b = [] then Completed s
          else
            (let s1 = s\<lparr> nextStartTime := max (nextStartTime s) currentTime \<rparr>
             in case decodeAudioData b of
                  Rejected \<Rightarrow> Aborted s1
                | Fulfilled duration \<Rightarrow>
                    (let source = fresh s1
                     in Completed
                          ((perform [SourceConnect source gain,
                                     SourceStart source (nextStartTime s1)] s1)
                             \<lparr> fresh := Suc source,
                               nextStartTime := addDouble (nextStartTime s1) duration,
                               audioSources := audioSources s1 @ [source] \<rparr>)))
      | _ \<Rightarrow> Completed s)"

definition stopPlayback :: "App \<Rightarrow> App" where
  \<comment> \<open>\<open>audioSources.current.forEach(source => source.stop()); audioSources.current.clear();
      nextStartTime.current = 0;\<close>\<close>
  "stopPlayback s =
     (perform (map SourceStop (audioSources s)) s)\<lparr> audioSources := [], nextStartTime := 0 \<rparr>"

definition textOrUndefined :: "string option \<Rightarrow> string" where
  \<comment> \<open>what \<open>+=\<close> appends to a string: the text, or \<open>undefined\<close> spelled out\<close>
  "textOrUndefined t = (case t of Some text \<Rightarrow> text | None \<Rightarrow> ''undefined'')"

definition appendOutputTranscription :: "LiveServerMessage \<Rightarrow> App \<Rightarrow> App" where
  "appendOutputTranscription message s =
     (case Option.bind (serverContent message) outputTranscription of
        Some tr \<Rightarrow>
          s\<lparr> currentInterviewerTextRef :=
               currentInterviewerTextRef s @ textOrUndefined (transcriptionText tr) \<rparr>
      | None \<Rightarrow> s)"

definition appendInputTranscription :: "LiveServerMessage \<Rightarrow> App \<Rightarrow> App outcome" where
  \<comment> \<open>\<open>text.trim()\<close> throws when \<open>text\<close> is absent, after the append\<close>
  "appendInputTranscription message s =
     (case Option.bind (serverContent message) inputTranscription of
        Some tr \<Rightarrow>
          (let s1 = s\<lparr> currentUserTextRef :=
                        currentUserTextRef s @ textOrUndefined (transcriptionText tr) \<rparr>
           in case transcriptionText tr of
                None \<Rightarrow> Aborted s1
              | Some text \<Rightarrow>
                  Completed (if trim text \<noteq> [] then s1\<lparr> hasSpokenInTurnRef := True \<rparr> else s1))
      | None \<Rightarrow> Completed s)"

definition appendTranscriptions :: "LiveServerMessage \<Rightarrow> App \<Rightarrow> App outcome" where
  "appendTranscriptions message s =
     andThen (appendInputTranscription message (appendOutputTranscription message s))
       (\<lambda>s2. Completed
          (dispatch (UPDATE_TRANSCRIPTIONS (currentUserTextRef s2) (currentInterviewerTextRef s2))
             s2))"

definition finalizeTurn :: "App \<Rightarrow> App" where
  "finalizeTurn s =
     (let s1 = dispatch (FINALIZE_TURN (trim (currentUserTextRef s))
                                       (trim (currentInterviewerTextRef s))) s;
          s2 = s1\<lparr> currentUserTextRef := [], currentInterviewerTextRef := [],
                   hasSpokenInTurnRef := False, isSilentRef := False \<rparr>
      in clearSilenceTimer s2)"

definition onmessage ::
  "(string \<Rightarrow> real settled) \<Rightarrow> real \<Rightarrow> LiveServerMessage \<Rightarrow> App \<Rightarrow> App outcome" where
  "onmessage decodeAudioData currentTime message s =
     (case messageAudio message of
        Inl e \<Rightarrow> Aborted s
      | Inr base64Audio \<Rightarrow>
          andThen (scheduleAudio decodeAudioData currentTime base64Audio s)
            (\<lambda>s1. andThen
               (appendTranscriptions message
                  (if isInterrupted message then stopPlayback s1 else s1))
               (\<lambda>s3. Completed (if isTurnComplete message then finalizeTurn s3 else s3))))"

definition sourceEnded :: "nat \<Rightarrow> App \<Rightarrow> App" where
  \<comment> \<open>the \<open>ended\<close> listener of a source\<close>
  "sourceEnded source s = s\<lparr> audioSources := removeAll source (audioSources s) \<rparr>"

subsection \<open>Teardown (\<open>cleanupAudio\<close>)\<close>

text \<open>
  \<open>cleanupAudio\<close> does not close the session itself: it registers on the session promise a
  reaction that will, and forgets the promise.  The reaction runs later, when the promise
  is fulfilled; when the promise is rejected its \<open>catch\<close> logs the reason and no session is
  closed.  Every other call of the teardown is made at once.
\<close>

definition handles :: "nat option list \<Rightarrow> nat list" where
  \<comment> \<open>the refs among these that are not \<open>null\<close> (the calls made through \<open>?.\<close>)\<close>
  "handles refs = concat (map (\<lambda>r. case r of Some h \<Rightarrow> [h] | None \<Rightarrow> []) refs)"

definition cleanupAudio :: "App \<Rightarrow> App" where
  "cleanupAudio s =
     (let s1 = clearSilenceTimer s;
          s2 = (case sessionPromise s1 of
                  Some p \<Rightarrow> s1\<lparr> closeRequests := closeRequests s1 @ [p], sessionPromise := None \<rparr>
                | None \<Rightarrow> s1);
          s3 = perform (map Disconnect (handles [scriptProcessorNode s2, mediaStreamSource s2,
                                                  inputGainNode s2, outputGainNode s2])) s2;
          s4 = perform (map TrackStop (case userMediaStream s3 of
                                         Some tracks \<Rightarrow> tracks | None \<Rightarrow> [])) s3;
          s5 = perform (map ContextClose (handles [inputAudioContext s4, outputAudioContext s4])) s4;
          s6 = stopPlayback s5
      in s6\<lparr> scriptProcessorNode := None, mediaStreamSource := None, inputGainNode := None,
             outputGainNode := None, userMediaStream := None, inputAudioContext := None,
             outputAudioContext := None \<rparr>)"

definition sessionSettled :: "nat \<Rightarrow> bool \<Rightarrow> App \<Rightarrow> App" where
  \<comment> \<open>the reactions registered on session promise \<open>p\<close> run: it is fulfilled or rejected\<close>
  "sessionSettled p fulfilled s =
     (perform (if fulfilled then map SessionClose (filter (\<lambda>q. q = p) (closeRequests s)) else []) s)
       \<lparr> closeRequests := filter (\<lambda>q. q \<noteq> p) (closeRequests s) \<rparr>"

subsection \<open>Runs\<close>

text \<open>
  A run is a list of events, each with the time (in milliseconds) at which its handler is
  called.  At that time the timeouts that are due have run.  A message handler that throws
  rejects a promise nobody awaits; the run goes on from the state it left.  The decoding
  that a message handler awaits is taken to settle before the next event: the handlers of
  a run do not interleave.
\<close>

datatype event =
    AudioProcess real                \<comment> \<open>a captured frame, by its RMS\<close>
  | Message real LiveServerMessage   \<comment> \<open>the output context's \<open>currentTime\<close>, the message\<close>
  | Ended nat
  | Cleanup
  | SessionSettled nat bool

fun handle :: "(string \<Rightarrow> real settled) \<Rightarrow> nat \<Rightarrow> event \<Rightarrow> App \<Rightarrow> App" where
  "handle decodeAudioData now (AudioProcess rms) s = onaudioprocess now rms s"
| "handle decodeAudioData now (Message currentTime message) s =
     stateAfter (onmessage decodeAudioData currentTime message s)"
| "handle decodeAudioData now (Ended source) s = sourceEnded source s"
| "handle decodeAudioData now Cleanup s = cleanupAudio s"
| "handle decodeAudioData now (SessionSettled p fulfilled) s = sessionSettled p fulfilled s"

fun run :: "(string \<Rightarrow> real settled) \<Rightarrow> App \<Rightarrow> (nat \<times> event) list \<Rightarrow> App" where
  "run decodeAudioData s [] = s"
| "run decodeAudioData s ((now, ev) # evs) =
     run decodeAudioData (handle decodeAudioData now ev (runTimeouts now s)) evs"

fun runStates :: "(string \<Rightarrow> real settled) \<Rightarrow> App \<Rightarrow> (nat \<times> event) list \<Rightarrow> App list" where
  \<comment> \<open>every state the run passes through: after the timeouts, after the handler\<close>
  "runStates decodeAudioData s [] = [s]"
| "runStates decodeAudioData s ((now, ev) # evs) =
     s # runTimeouts now s
       # runStates decodeAudioData (handle decodeAudioData now ev (runTimeouts now s)) evs"

fun suspensions :: "App list \<Rightarrow> nat" where
  \<comment> \<open>how often sending goes from allowed to suspended along a list of states\<close>
  "suspensions (a # b # ss) =
     (if \<not> isSilentRef a \<and> isSilentRef b then 1 else 0) + suspensions (b # ss)"
| "suspensions ss = 0"

definition frames :: "(nat \<times> real) list \<Rightarrow> (nat \<times> event) list" where
  "frames fs = map (\<lambda>(now, rms). (now, AudioProcess rms)) fs"

subsection \<open>The playback timeline as the specification words it\<close>

text \<open>
  From a cursor and the chunks, each with the output time at its arrival and its duration:
  a chunk starts at the maximum of the output time and the cursor, and the cursor moves to
  that start plus the duration, an addition of numbers.
\<close>

fun timelineStarts :: "real \<Rightarrow> (real \<times> real) list \<Rightarrow> real list" where
  "timelineStarts cursor [] = []"
| "timelineStarts cursor ((currentTime, duration) # chunks) =
     max currentTime cursor
       # timelineStarts (addDouble (max currentTime cursor) duration) chunks"

fun timelineCursors :: "real \<Rightarrow> (real \<times> real) list \<Rightarrow> real list" where
  "timelineCursors cursor [] = [cursor]"
| "timelineCursors cursor ((currentTime, duration) # chunks) =
     cursor # timelineCursors (addDouble (max currentTime cursor) duration) chunks"

fun onmessages ::
  "(string \<Rightarrow> real settled) \<Rightarrow> App \<Rightarrow> (real \<times> LiveServerMessage) list \<Rightarrow> App" where
  "onmessages decodeAudioData s [] = s"
| "onmessages decodeAudioData s ((currentTime, message) # ms) =
     onmessages decodeAudioData (stateAfter (onmessage decodeAudioData currentTime message s)) ms"

definition scheduledStarts :: "App \<Rightarrow> real list" where
  \<comment> \<open>the arguments of the \<open>source.start\<close> calls made so far, in order\<close>
  "scheduledStarts s =
     concat (map (\<lambda>e. case e of SourceStart source when \<Rightarrow> [when] | _ \<Rightarrow> []) (effects s))"

definition chunkDuration :: "(string \<Rightarrow> real settled) \<Rightarrow> LiveServerMessage \<Rightarrow> real option" where
  \<comment> \<open>the duration of the chunk a message carries: its first part has inline data that is
      not empty and that decodes\<close>
  "chunkDuration decodeAudioData message =
     (case messageAudio message of
        Inr (Some b) \<Rightarrow>
          if b = [] then None
          else (case decodeAudioData b of Fulfilled duration \<Rightarrow> Some duration | Rejected \<Rightarrow> None)
      | _ \<Rightarrow> None)"

definition chunkOf ::
  "(string \<Rightarrow> real settled) \<Rightarrow> real \<times> LiveServerMessage \<Rightarrow> real \<times> real" where
  "chunkOf decodeAudioData cm =
     (fst cm, case chunkDuration decodeAudioData (snd cm) of Some d \<Rightarrow> d | None \<Rightarrow> 0)"

subsection \<open>Predicates on the component's state\<close>

definition timerOwned :: "App \<Rightarrow> bool" where
  \<comment> \<open>every pending timeout is the one \<open>silenceTimerRef\<close> holds\<close>
  "timerOwned s = list_all (\<lambda>(h, due). silenceTimerRef s = Some h) (timeouts s)"



text \<open>The messages on which the handler runs to its end, in a state.\<close>

definition handlerCompletes ::
  "(string \<Rightarrow> real settled) \<Rightarrow> LiveServerMessage \<Rightarrow> App \<Rightarrow> bool" where
  "handlerCompletes d m s =
     (case messageAudio m of
        Inl e \<Rightarrow> False
      | Inr a \<Rightarrow>
          (case (a, outputAudioContext s, outputGainNode s) of
             (Some b, Some ctx, Some gain) \<Rightarrow> b = [] \<or> d b \<noteq> Rejected
           | _ \<Rightarrow> True)
          \<and> (case Option.bind (serverContent m) inputTranscription of
                Some tr \<Rightarrow> transcriptionText tr \<noteq> None
              | None \<Rightarrow> True))"

definition appendedUserText :: "LiveServerMessage \<Rightarrow> string" where
  \<comment> \<open>what a message adds to the user buffer\<close>
  "appendedUserText m =
     (case Option.bind (serverContent m) inputTranscription of
        Some tr \<Rightarrow> textOrUndefined (transcriptionText tr)
      | None \<Rightarrow> [])"

definition appendedInterviewerText :: "LiveServerMessage \<Rightarrow> string" where
  \<comment> \<open>what a message adds to the interviewer buffer\<close>
  "appendedInterviewerText m =
     (case Option.bind (serverContent m) outputTranscription of
        Some tr \<Rightarrow> textOrUndefined (transcriptionText tr)
      | None \<Rightarrow> [])"

section \<open>Properties of the error classifier\<close>

lemma startsWith_iff: "startsWith s sub \<longleftrightarrow> (\<exists>q. s = sub @ q)"
  by (induction s sub rule: startsWith.induct) auto

text \<open>\<open>includes_str\<close> is the substring test.\<close>

lemma includes_str_iff: "includes_str s sub \<longleftrightarrow> (\<exists>p q. s = p @ sub @ q)"
proof (induction s)
  case Nil
  then show ?case by simp
next
  case (Cons x xs)
  show ?case
  proof
    assume "includes_str (x # xs) sub"
    then consider "startsWith (x # xs) sub" | "includes_str xs sub" by auto
    then show "\<exists>p q. x # xs = p @ sub @ q"
    proof cases
      case 1
      then obtain q where "x # xs = sub @ q" by (auto simp: startsWith_iff)
      then have "x # xs = [] @ sub @ q" by simp
      then show ?thesis by blast
    next
      case 2
      then obtain p q where "xs = p @ sub @ q" using Cons.IH by blast
      then have "x # xs = (x # p) @ sub @ q" by simp
      then show ?thesis by blast
    qed
  next
    assume "\<exists>p q. x # xs = p @ sub @ q"
    then obtain p q where pq: "x # xs = p @ sub @ q" by blast
    show "includes_str (x # xs) sub"
    proof (cases p)
      case Nil
      with pq have "startsWith (x # xs) sub" by (auto simp: startsWith_iff)
      then show ?thesis by simp
    next
      case (Cons y ys)
      with pq have "xs = ys @ sub @ q" by simp
      then have "includes_str xs sub" using Cons.IH by blast
      then show ?thesis by simp
    qed
  qed
qed















section \<open>Properties of the welcome audio\<close>

text \<open>
  Claim C9.  For every language and every behaviour of the model call, the promise of
  \<open>generateWelcomeAudio\<close> is fulfilled, never rejected.  Its value is the empty string when
  the call rejects and when the response carries no audio data, and the audio data of the
  response otherwise.
\<close>

theorem generateWelcomeAudio_best_effort:
  "\<exists>audio. generateWelcomeAudio generateContent lang = Fulfilled audio
     \<and> (generateContent (welcomeTextFor lang) = Rejected \<longrightarrow> audio = [])
     \<and> (\<forall>r. generateContent (welcomeTextFor lang) = Fulfilled r \<longrightarrow>
              (base64AudioOf r = None \<longrightarrow> audio = [])
            \<and> (\<forall>d. base64AudioOf r = Some d \<longrightarrow> audio = d))"
  by (cases "generateContent (welcomeTextFor lang)")
     (auto simp: generateWelcomeAudio_def Let_def split: option.splits)

text \<open>
  A call that rejects, for a language that has no welcome text, and a call that answers
  with audio data.
\<close>

theorem generateWelcomeAudio_best_effort_witness:
  "generateWelcomeAudio (\<lambda>t. Rejected) ''Klingon'' = Fulfilled []
   \<and> generateWelcomeAudio
       (\<lambda>t. Fulfilled (GenerateContentResponse
               (Some [Candidate (Some (Content (Some [Part (Some (Some ''UklGRg=='')) ])))])))
       ''French''
     = Fulfilled ''UklGRg==''"
proof -
  let ?r = "GenerateContentResponse
              (Some [Candidate (Some (Content (Some [Part (Some (Some ''UklGRg=='')) ])))])"
  have d: "base64AudioOf ?r = Some ''UklGRg==''"
    by (simp add: base64AudioOf_def)
  obtain a where a: "generateWelcomeAudio (\<lambda>t. Rejected) ''Klingon'' = Fulfilled a" "a = []"
    using generateWelcomeAudio_best_effort [of "\<lambda>t. Rejected" "''Klingon''"] by auto
  obtain b where b: "generateWelcomeAudio (\<lambda>t. Fulfilled ?r) ''French'' = Fulfilled b"
      "b = ''UklGRg==''"
    using generateWelcomeAudio_best_effort [of "\<lambda>t. Fulfilled ?r" "''French''"] d by auto
  show ?thesis using a b by simp
qed

section \<open>Properties of the numbers\<close>

lemma roundHalfEven_mono: "x \<le> y \<Longrightarrow> roundHalfEven x \<le> roundHalfEven y"
proof -
  assume xy: "x \<le> y"
  have fl: "\<lfloor>x\<rfloor> \<le> \<lfloor>y\<rfloor>" using xy by (rule floor_mono)
  have bx: "roundHalfEven x \<le> \<lfloor>x\<rfloor> + 1" and by': "\<lfloor>y\<rfloor> \<le> roundHalfEven y"
    by (auto simp: roundHalfEven_def Let_def)
  show ?thesis
  proof (cases "\<lfloor>x\<rfloor> < \<lfloor>y\<rfloor>")
    case True
    then show ?thesis using bx by' by linarith
  next
    case False
    then have eq: "\<lfloor>x\<rfloor> = \<lfloor>y\<rfloor>" using fl by simp
    then have "x - of_int \<lfloor>x\<rfloor> \<le> y - of_int \<lfloor>y\<rfloor>" using xy by simp
    then show ?thesis
      unfolding roundHalfEven_def Let_def eq by auto
  qed
qed

lemma roundHalfEven_of_int [simp]: "roundHalfEven (of_int n) = n"
  by (simp add: roundHalfEven_def Let_def)

lemma ulp_pos [simp]: "0 < ulp x"
  by (simp add: ulp_def)

lemma ulp_nonneg [simp]: "0 \<le> ulp x"
  by (simp add: ulp_def)

lemma div_ulp_mono: "a \<le> b \<Longrightarrow> a / ulp x \<le> b / ulp x"
  by (rule divide_right_mono) simp_all

lemma binade_upper: "0 < x \<Longrightarrow> x < 2 powr (of_int (binade x) + 1)"
proof -
  assume x: "0 < x"
  have "x < 2 powr (of_int \<lfloor>log 2 x\<rfloor> + 1)"
    using floor_log_eq_powr_iff [of x 2 "\<lfloor>log 2 x\<rfloor>"] x by simp
  also have "\<dots> \<le> 2 powr (of_int (binade x) + 1)"
    by (simp add: binade_def)
  finally show ?thesis .
qed

lemma binade_lower: "0 < x \<Longrightarrow> - 1022 < binade x \<Longrightarrow> 2 powr (of_int (binade x)) \<le> x"
proof -
  assume x: "0 < x" and b: "- 1022 < binade x"
  then have "binade x = \<lfloor>log 2 x\<rfloor>" by (auto simp: binade_def)
  then show ?thesis
    using floor_log_eq_powr_iff [of x 2 "\<lfloor>log 2 x\<rfloor>"] x by simp
qed

lemma binade_mono: "0 < x \<Longrightarrow> x \<le> y \<Longrightarrow> binade x \<le> binade y"
proof -
  assume x: "0 < x" and xy: "x \<le> y"
  have "log 2 x \<le> log 2 y" using x xy by simp
  then have "\<lfloor>log 2 x\<rfloor> \<le> \<lfloor>log 2 y\<rfloor>" by (rule floor_mono)
  then show ?thesis by (auto simp: binade_def)
qed

lemma ratio_upper: "0 < x \<Longrightarrow> x / ulp x < 2 ^ 53"
proof -
  assume x: "0 < x"
  have "x / ulp x < 2 powr (of_int (binade x) + 1) / ulp x"
    using binade_upper [OF x] by (simp add: divide_strict_right_mono)
  also have "\<dots> = 2 powr 53"
    by (simp add: ulp_def powr_diff [symmetric])
  finally show ?thesis by simp
qed

lemma roundDouble_upper: "0 < x \<Longrightarrow> roundDouble x \<le> 2 powr (of_int (binade x) + 1)"
proof -
  assume x: "0 < x"
  have "x / ulp x \<le> of_int (2 ^ 53)"
    using ratio_upper [OF x] by simp
  then have "roundHalfEven (x / ulp x) \<le> roundHalfEven (of_int (2 ^ 53))"
    by (rule roundHalfEven_mono)
  then have "roundHalfEven (x / ulp x) \<le> 2 ^ 53"
    by (simp only: roundHalfEven_of_int)
  then have "real_of_int (roundHalfEven (x / ulp x)) \<le> 2 ^ 53"
    by (metis of_int_le_iff of_int_numeral of_int_power)
  then have "roundDouble x \<le> 2 ^ 53 * ulp x"
    using x by (simp add: roundDouble_def mult_right_mono)
  also have "\<dots> = 2 powr 53 * ulp x" by simp
  also have "\<dots> = 2 powr (of_int (binade x) + 1)"
    unfolding ulp_def powr_add [symmetric] by (simp add: add.commute)
  finally show ?thesis .
qed

lemma roundDouble_lower:
  "0 < x \<Longrightarrow> - 1022 < binade x \<Longrightarrow> 2 powr (of_int (binade x)) \<le> roundDouble x"
proof -
  assume x: "0 < x" and b: "- 1022 < binade x"
  have "2 powr (of_int (binade x)) / ulp x \<le> x / ulp x"
    using binade_lower [OF x b] by (rule div_ulp_mono)
  moreover have "2 powr (of_int (binade x)) / ulp x = 2 powr 52"
    by (simp add: ulp_def powr_diff [symmetric])
  ultimately have "of_int (2 ^ 52) \<le> x / ulp x" by simp
  then have "roundHalfEven (of_int (2 ^ 52)) \<le> roundHalfEven (x / ulp x)"
    by (rule roundHalfEven_mono)
  then have "2 ^ 52 \<le> roundHalfEven (x / ulp x)"
    by (simp only: roundHalfEven_of_int)
  then have "2 ^ 52 \<le> real_of_int (roundHalfEven (x / ulp x))"
    by (metis of_int_le_iff of_int_numeral of_int_power)
  then have "2 ^ 52 * ulp x \<le> roundDouble x"
    using x by (simp add: roundDouble_def mult_right_mono)
  moreover have "2 ^ 52 * ulp x = 2 powr 52 * ulp x" by simp
  moreover have "2 powr 52 * ulp x = 2 powr (of_int (binade x))"
    unfolding ulp_def powr_add [symmetric] by simp
  ultimately show ?thesis by simp
qed

lemma roundDouble_nonneg: "0 \<le> x \<Longrightarrow> 0 \<le> roundDouble x"
proof -
  assume "0 \<le> x"
  show ?thesis
  proof (cases "x = 0")
    case True then show ?thesis by (simp add: roundDouble_def)
  next
    case False
    then have x: "0 < x" using \<open>0 \<le> x\<close> by simp
    have "of_int 0 \<le> x / ulp x"
      using x by simp
    then have "roundHalfEven (of_int 0) \<le> roundHalfEven (x / ulp x)"
      by (rule roundHalfEven_mono)
    then have "0 \<le> roundHalfEven (x / ulp x)"
      by (simp only: roundHalfEven_of_int)
    then show ?thesis using x by (simp add: roundDouble_def)
  qed
qed

lemma roundDouble_mono: "0 \<le> x \<Longrightarrow> x \<le> y \<Longrightarrow> roundDouble x \<le> roundDouble y"
proof -
  assume x0: "0 \<le> x" and xy: "x \<le> y"
  show ?thesis
  proof (cases "x = 0")
    case True
    then show ?thesis using roundDouble_nonneg [of y] xy by (simp add: roundDouble_def)
  next
    case False
    then have x: "0 < x" and y: "0 < y" using x0 xy by simp_all
    have le: "binade x \<le> binade y" using x xy by (rule binade_mono)
    show ?thesis
    proof (cases "binade x = binade y")
      case True
      then have u: "ulp x = ulp y" by (simp add: ulp_def)
      have "x / ulp y \<le> y / ulp y" using xy by (rule div_ulp_mono)
      then have "roundHalfEven (x / ulp y) \<le> roundHalfEven (y / ulp y)"
        by (rule roundHalfEven_mono)
      then show ?thesis using x y u by (simp add: roundDouble_def mult_right_mono)
    next
      case False
      then have lt: "binade x < binade y" using le by simp
      have "- 1022 \<le> binade x" by (simp add: binade_def)
      then have b: "- 1022 < binade y" using lt by simp
      have "roundDouble x \<le> 2 powr (of_int (binade x) + 1)"
        using x by (rule roundDouble_upper)
      also have "\<dots> \<le> 2 powr (of_int (binade y))"
        using lt by simp
      also have "\<dots> \<le> roundDouble y"
        using y b by (rule roundDouble_lower)
      finally show ?thesis .
    qed
  qed
qed

lemma roundDouble_pos_eq:
  "0 < x \<Longrightarrow> roundDouble x = of_int (roundHalfEven (x / ulp x)) * ulp x"
  by (simp add: roundDouble_def)

lemma roundDouble_multiple:
  assumes "0 < m" "binade (of_int m * u) = e" "u = 2 powr (of_int e - 52)"
  shows "roundDouble (of_int m * u) = of_int m * u"
proof -
  have u: "ulp (of_int m * u) = u" using assms(2,3) by (simp add: ulp_def)
  have p: "0 < of_int m * u" using assms(1,3) by simp
  have "of_int m * u / u = of_int m" using assms(3) by simp
  then show ?thesis
    using p by (simp add: roundDouble_pos_eq u)
qed

lemma roundDouble_idem: "0 \<le> x \<Longrightarrow> roundDouble (roundDouble x) = roundDouble x"
proof -
  assume x0: "0 \<le> x"
  show ?thesis
  proof (cases "x = 0")
    case True then show ?thesis by (simp add: roundDouble_def)
  next
    case False
    then have x: "0 < x" using x0 by simp
    define e where "e = binade x"
    define u where "u = ulp x"
    define m where "m = roundHalfEven (x / u)"
    have u: "u = 2 powr (of_int e - 52)" by (simp add: u_def e_def ulp_def)
    have r: "roundDouble x = of_int m * u"
      using x by (simp add: roundDouble_pos_eq m_def u_def)
    have m0: "0 \<le> m"
      using roundDouble_nonneg [OF x0] r u
      by (simp add: zero_le_mult_iff)
    show ?thesis
    proof (cases "m = 0")
      case True
      have z: "roundDouble 0 = 0" by (simp add: roundDouble_def)
      have rx: "roundDouble x = 0" using r True by simp
      show ?thesis by (simp only: rx z)
    next
      case False
      then have mp: "0 < m" using m0 by simp
      have up: "roundDouble x \<le> 2 powr (of_int e + 1)"
        using roundDouble_upper [OF x] by (simp add: e_def)
      have rp: "0 < roundDouble x" using mp u by (simp add: r)
      show ?thesis
      proof (cases "roundDouble x = 2 powr (of_int e + 1)")
        case True
        have b: "binade (2 powr (of_int e + 1)) = e + 1"
        proof -
          have "- 1022 \<le> e" by (simp add: e_def binade_def)
          moreover have "\<lfloor>log 2 (2 powr (of_int e + 1))\<rfloor> = e + 1"
            by simp
          ultimately show ?thesis by (simp add: binade_def)
        qed
        have pw: "real_of_int (2 ^ 52) * 2 powr (real_of_int (e + 1) - 52)
                    = 2 powr (real_of_int e + 1)"
        proof -
          have "real_of_int (2 ^ 52) * 2 powr (real_of_int (e + 1) - 52)
                  = 2 powr 52 * 2 powr (real_of_int (e + 1) - 52)" by simp
          also have "\<dots> = 2 powr (real_of_int e + 1)"
            unfolding powr_add [symmetric] by (simp add: add.commute)
          finally show ?thesis .
        qed
        have "roundDouble (real_of_int (2 ^ 52) * 2 powr (real_of_int (e + 1) - 52))
                = real_of_int (2 ^ 52) * 2 powr (real_of_int (e + 1) - 52)"
        proof (rule roundDouble_multiple [where e = "e + 1"])
          show "0 < (2 :: int) ^ 52" by simp
          show "binade (real_of_int (2 ^ 52) * 2 powr (real_of_int (e + 1) - 52)) = e + 1"
            unfolding pw by (rule b)
          show "2 powr (real_of_int (e + 1) - 52) = 2 powr (real_of_int (e + 1) - 52)" ..
        qed
        then have "roundDouble (2 powr (real_of_int e + 1)) = 2 powr (real_of_int e + 1)"
          unfolding pw .
        then show ?thesis unfolding True .
      next
        case False
        then have lt: "roundDouble x < 2 powr (of_int e + 1)" using up by simp
        have be: "binade (roundDouble x) = e"
        proof -
          have le: "\<lfloor>log 2 (roundDouble x)\<rfloor> \<le> e"
          proof -
            have "log 2 (roundDouble x) < of_int e + 1"
              using lt rp by (simp add: log_less_iff)
            then show ?thesis by linarith
          qed
          show ?thesis
          proof (cases "- 1022 < e")
            case True
            then have "2 powr (of_int e) \<le> roundDouble x"
              using roundDouble_lower [OF x] by (simp add: e_def)
            then have "of_int e \<le> log 2 (roundDouble x)"
              using rp by (simp add: le_log_iff)
            then have "e \<le> \<lfloor>log 2 (roundDouble x)\<rfloor>" by linarith
            then show ?thesis using le True by (simp add: binade_def)
          next
            case False
            moreover have "- 1022 \<le> e" by (simp add: e_def binade_def)
            ultimately have "e = - 1022" by simp
            then show ?thesis using le by (simp add: binade_def)
          qed
        qed
        show ?thesis
          unfolding r
          by (rule roundDouble_multiple [where e = e]) (use mp be r u in simp_all)
      qed
    qed
  qed
qed

lemma roundHalfEven_near: "\<bar>x - of_int m\<bar> < 1 / 2 \<Longrightarrow> roundHalfEven x = m"
proof -
  assume a: "\<bar>x - of_int m\<bar> < 1 / 2"
  show ?thesis
  proof (cases "of_int m \<le> x")
    case True
    then have "\<lfloor>x\<rfloor> = m" using a by linarith
    then show ?thesis using a True by (simp add: roundHalfEven_def Let_def)
  next
    case False
    then have "\<lfloor>x\<rfloor> = m - 1" using a by linarith
    then show ?thesis using a False by (simp add: roundHalfEven_def Let_def)
  qed
qed

lemma roundDouble_eval:
  assumes "0 < x" "- 1022 \<le> e" "2 powr (of_int e) \<le> x" "x < 2 powr (of_int e + 1)"
      and "\<bar>x / 2 powr (of_int e - 52) - of_int m\<bar> < 1 / 2"
  shows "roundDouble x = of_int m * 2 powr (of_int e - 52)"
proof -
  have "\<lfloor>log 2 x\<rfloor> = e"
    using floor_log_eq_powr_iff [of x 2 e] assms(1,3,4) by simp
  then have b: "binade x = e" using assms(2) by (simp add: binade_def)
  have u: "ulp x = 2 powr (of_int e - 52)" by (simp add: ulp_def b)
  show ?thesis
    using assms(1) roundHalfEven_near [OF assms(5)] by (simp add: roundDouble_def u)
qed

lemma isDouble_0 [simp]: "isDouble 0"
  by (simp add: isDouble_def roundDouble_def)

lemma isDouble_roundDouble: "0 \<le> x \<Longrightarrow> isDouble (roundDouble x)"
  by (simp add: isDouble_def roundDouble_idem)

lemma isDouble_max: "isDouble a \<Longrightarrow> isDouble b \<Longrightarrow> isDouble (max a b)"
  by (simp add: max_def)

lemma addDouble_nonneg: "0 \<le> a \<Longrightarrow> 0 \<le> b \<Longrightarrow> 0 \<le> addDouble a b"
  by (simp add: addDouble_def roundDouble_nonneg)

lemma addDouble_isDouble: "0 \<le> a \<Longrightarrow> 0 \<le> b \<Longrightarrow> isDouble (addDouble a b)"
  by (simp add: addDouble_def isDouble_roundDouble)

text \<open>Addition of numbers is monotone, and adding a duration does not move a number
  backwards.\<close>

lemma addDouble_mono:
  "0 \<le> a \<Longrightarrow> a \<le> b \<Longrightarrow> 0 \<le> d \<Longrightarrow> addDouble a d \<le> addDouble b d"
  by (simp add: addDouble_def roundDouble_mono)

lemma addDouble_increases:
  assumes "0 \<le> a" "isDouble a" "0 \<le> d"
  shows "a \<le> addDouble a d"
proof -
  have "roundDouble a \<le> roundDouble (a + d)"
    using assms(1,3) by (intro roundDouble_mono) simp_all
  then show ?thesis
    using assms(2) by (simp add: addDouble_def isDouble_def)
qed

text \<open>The numbers written \<open>0.1\<close> and \<open>0.7\<close>, and their sum as a number.\<close>

lemma double_0_1: "isDouble (3602879701896397 / 2 ^ 55)"
proof -
  have "roundDouble (3602879701896397 / 2 ^ 55)
          = of_int 7205759403792794 * 2 powr (of_int (- 4) - 52)"
    by (rule roundDouble_eval) (simp_all add: powr_minus)
  then show ?thesis by (simp add: isDouble_def powr_minus)
qed

lemma double_0_7: "isDouble (3152519739159347 / 2 ^ 52)"
proof -
  have "roundDouble (3152519739159347 / 2 ^ 52)
          = of_int 6305039478318694 * 2 powr (of_int (- 1) - 52)"
    by (rule roundDouble_eval) (simp_all add: powr_minus)
  then show ?thesis by (simp add: isDouble_def powr_minus)
qed

lemma addDouble_0_1_0_7:
  "addDouble (3602879701896397 / 2 ^ 55) (3152519739159347 / 2 ^ 52) = 7205759403792793 / 2 ^ 53"
proof -
  have "roundDouble (3602879701896397 / 2 ^ 55 + 3152519739159347 / 2 ^ 52)
          = of_int 7205759403792793 * 2 powr (of_int (- 1) - 52)"
    by (rule roundDouble_eval) (simp_all add: powr_minus)
  then show ?thesis
    by (simp add: addDouble_def powr_minus)
qed

lemma addDouble_0_left: "isDouble d \<Longrightarrow> addDouble 0 d = d"
  by (simp add: addDouble_def isDouble_def)

text \<open>Small numbers that are exact, and sums of them.\<close>

lemma roundDouble_half: "roundDouble (1 / 2) = 1 / 2"
proof -
  have "roundDouble (1 / 2) = of_int (2 ^ 52) * 2 powr (of_int (- 1) - 52)"
    by (rule roundDouble_eval) (simp_all add: powr_minus)
  then show ?thesis by (simp add: powr_minus)
qed

lemma roundDouble_1: "roundDouble 1 = 1"
proof -
  have "roundDouble 1 = of_int (2 ^ 52) * 2 powr (of_int 0 - 52)"
    by (rule roundDouble_eval) (simp_all add: powr_minus)
  then show ?thesis by (simp add: powr_minus)
qed

lemma roundDouble_2: "roundDouble 2 = 2"
proof -
  have "roundDouble 2 = of_int (2 ^ 52) * 2 powr (of_int 1 - 52)"
    by (rule roundDouble_eval) (simp_all add: powr_minus)
  then show ?thesis by (simp add: powr_minus)
qed

lemma roundDouble_quarter: "roundDouble (1 / 4) = 1 / 4"
proof -
  have "roundDouble (1 / 4) = of_int (2 ^ 52) * 2 powr (of_int (- 2) - 52)"
    by (rule roundDouble_eval) (simp_all add: powr_minus)
  then show ?thesis by (simp add: powr_minus)
qed

lemma roundDouble_5_2: "roundDouble (5 / 2) = 5 / 2"
proof -
  have "roundDouble (5 / 2) = of_int (5 * 2 ^ 50) * 2 powr (of_int 1 - 52)"
    by (rule roundDouble_eval) (simp_all add: powr_minus)
  then show ?thesis by (simp add: powr_minus)
qed

section \<open>Properties of the message handler\<close>

lemma clearSilenceTimer_fields [simp]:
  "silenceTimerRef (clearSilenceTimer s) = None"
  "audioSources (clearSilenceTimer s) = audioSources s"
  "nextStartTime (clearSilenceTimer s) = nextStartTime s"
  "effects (clearSilenceTimer s) = effects s"
  "closeRequests (clearSilenceTimer s) = closeRequests s"
  "appState (clearSilenceTimer s) = appState s"
  "hasSpokenInTurnRef (clearSilenceTimer s) = hasSpokenInTurnRef s"
  "isSilentRef (clearSilenceTimer s) = isSilentRef s"
  "currentUserTextRef (clearSilenceTimer s) = currentUserTextRef s"
  "currentInterviewerTextRef (clearSilenceTimer s) = currentInterviewerTextRef s"
  "outputAudioContext (clearSilenceTimer s) = outputAudioContext s"
  "outputGainNode (clearSilenceTimer s) = outputGainNode s"
  "fresh (clearSilenceTimer s) = fresh s"
  by (simp_all add: clearSilenceTimer_def clearTimeout_def split: option.splits)

lemma clearSilenceTimer_timeouts:
  "timeouts (clearSilenceTimer s) =
     (case silenceTimerRef s of
        Some h \<Rightarrow> filter (\<lambda>(i, due). i \<noteq> h) (timeouts s)
      | None \<Rightarrow> timeouts s)"
  by (simp add: clearSilenceTimer_def clearTimeout_def split: option.splits)

lemma timerOwned_None:
  "timerOwned s \<Longrightarrow> silenceTimerRef s = None \<Longrightarrow> timeouts s = []"
  by (cases "timeouts s") (auto simp: timerOwned_def)

lemma timerOwned_Some:
  "timerOwned s \<Longrightarrow> silenceTimerRef s = Some h
     \<Longrightarrow> filter (\<lambda>(i, due). i \<noteq> h) (timeouts s) = []"
  by (auto simp: timerOwned_def list_all_iff filter_empty_conv)

lemma clearSilenceTimer_owned:
  "timerOwned s \<Longrightarrow> timeouts (clearSilenceTimer s) = []"
  by (cases "silenceTimerRef s")
     (simp_all add: clearSilenceTimer_timeouts timerOwned_None timerOwned_Some)

lemma dispatch_fields [simp]:
  "appState (dispatch a s) = appReducer (appState s) a"
  "silenceTimerRef (dispatch a s) = silenceTimerRef s"
  "timeouts (dispatch a s) = timeouts s"
  "audioSources (dispatch a s) = audioSources s"
  "nextStartTime (dispatch a s) = nextStartTime s"
  "effects (dispatch a s) = effects s"
  "currentUserTextRef (dispatch a s) = currentUserTextRef s"
  "currentInterviewerTextRef (dispatch a s) = currentInterviewerTextRef s"
  "outputAudioContext (dispatch a s) = outputAudioContext s"
  "outputGainNode (dispatch a s) = outputGainNode s"
  by (simp_all add: dispatch_def)

lemma appendOutputTranscription_fields [simp]:
  "audioSources (appendOutputTranscription m s) = audioSources s"
  "nextStartTime (appendOutputTranscription m s) = nextStartTime s"
  "effects (appendOutputTranscription m s) = effects s"
  "silenceTimerRef (appendOutputTranscription m s) = silenceTimerRef s"
  "timeouts (appendOutputTranscription m s) = timeouts s"
  "outputAudioContext (appendOutputTranscription m s) = outputAudioContext s"
  "outputGainNode (appendOutputTranscription m s) = outputGainNode s"
  "appState (appendOutputTranscription m s) = appState s"
  "currentUserTextRef (appendOutputTranscription m s) = currentUserTextRef s"
  by (simp_all add: appendOutputTranscription_def split: option.splits)

lemma appendInputTranscription_fields [simp]:
  "audioSources (stateAfter (appendInputTranscription m s)) = audioSources s"
  "nextStartTime (stateAfter (appendInputTranscription m s)) = nextStartTime s"
  "effects (stateAfter (appendInputTranscription m s)) = effects s"
  "silenceTimerRef (stateAfter (appendInputTranscription m s)) = silenceTimerRef s"
  "timeouts (stateAfter (appendInputTranscription m s)) = timeouts s"
  "outputAudioContext (stateAfter (appendInputTranscription m s)) = outputAudioContext s"
  "outputGainNode (stateAfter (appendInputTranscription m s)) = outputGainNode s"
  "appState (stateAfter (appendInputTranscription m s)) = appState s"
  "currentInterviewerTextRef (stateAfter (appendInputTranscription m s))
     = currentInterviewerTextRef s"
  by (simp_all add: appendInputTranscription_def Let_def split: option.splits)

lemma appendTranscriptions_fields [simp]:
  "audioSources (stateAfter (appendTranscriptions m s)) = audioSources s"
  "nextStartTime (stateAfter (appendTranscriptions m s)) = nextStartTime s"
  "effects (stateAfter (appendTranscriptions m s)) = effects s"
  "silenceTimerRef (stateAfter (appendTranscriptions m s)) = silenceTimerRef s"
  "timeouts (stateAfter (appendTranscriptions m s)) = timeouts s"
  "outputAudioContext (stateAfter (appendTranscriptions m s)) = outputAudioContext s"
  "outputGainNode (stateAfter (appendTranscriptions m s)) = outputGainNode s"
  "transcript (appState (stateAfter (appendTranscriptions m s))) = transcript (appState s)"
proof -
  let ?r = "appendInputTranscription m (appendOutputTranscription m s)"
  have c: "stateAfter (appendTranscriptions m s)
             = (case ?r of
                  Completed s2 \<Rightarrow>
                    dispatch (UPDATE_TRANSCRIPTIONS (currentUserTextRef s2)
                                (currentInterviewerTextRef s2)) s2
                | Aborted s2 \<Rightarrow> s2)"
    by (cases ?r) (simp_all add: appendTranscriptions_def andThen_def)
  have f: "audioSources (stateAfter ?r) = audioSources s"
    "nextStartTime (stateAfter ?r) = nextStartTime s"
    "effects (stateAfter ?r) = effects s"
    "silenceTimerRef (stateAfter ?r) = silenceTimerRef s"
    "timeouts (stateAfter ?r) = timeouts s"
    "outputAudioContext (stateAfter ?r) = outputAudioContext s"
    "outputGainNode (stateAfter ?r) = outputGainNode s"
    "appState (stateAfter ?r) = appState s"
    by simp_all
  show "audioSources (stateAfter (appendTranscriptions m s)) = audioSources s"
    "nextStartTime (stateAfter (appendTranscriptions m s)) = nextStartTime s"
    "effects (stateAfter (appendTranscriptions m s)) = effects s"
    "silenceTimerRef (stateAfter (appendTranscriptions m s)) = silenceTimerRef s"
    "timeouts (stateAfter (appendTranscriptions m s)) = timeouts s"
    "outputAudioContext (stateAfter (appendTranscriptions m s)) = outputAudioContext s"
    "outputGainNode (stateAfter (appendTranscriptions m s)) = outputGainNode s"
    "transcript (appState (stateAfter (appendTranscriptions m s))) = transcript (appState s)"
    using f by (cases ?r; simp add: c)+
qed

lemma finalizeTurn_fields [simp]:
  "audioSources (finalizeTurn s) = audioSources s"
  "nextStartTime (finalizeTurn s) = nextStartTime s"
  "effects (finalizeTurn s) = effects s"
  "silenceTimerRef (finalizeTurn s) = None"
  "hasSpokenInTurnRef (finalizeTurn s) = False"
  "isSilentRef (finalizeTurn s) = False"
  "currentUserTextRef (finalizeTurn s) = []"
  "currentInterviewerTextRef (finalizeTurn s) = []"
  "outputAudioContext (finalizeTurn s) = outputAudioContext s"
  "outputGainNode (finalizeTurn s) = outputGainNode s"
  "appState (finalizeTurn s)
     = appReducer (appState s)
         (FINALIZE_TURN (trim (currentUserTextRef s)) (trim (currentInterviewerTextRef s)))"
  by (simp_all add: finalizeTurn_def dispatch_def Let_def del: appReducer.simps)

lemma finalizeTurn_timeouts:
  "timeouts (finalizeTurn s) =
     (case silenceTimerRef s of
        Some h \<Rightarrow> filter (\<lambda>(i, due). i \<noteq> h) (timeouts s)
      | None \<Rightarrow> timeouts s)"
  by (simp add: finalizeTurn_def Let_def clearSilenceTimer_timeouts del: appReducer.simps
        split: option.splits)

lemma stopPlayback_fields [simp]:
  "audioSources (stopPlayback s) = []"
  "nextStartTime (stopPlayback s) = 0"
  "effects (stopPlayback s) = effects s @ map SourceStop (audioSources s)"
  "silenceTimerRef (stopPlayback s) = silenceTimerRef s"
  "timeouts (stopPlayback s) = timeouts s"
  "hasSpokenInTurnRef (stopPlayback s) = hasSpokenInTurnRef s"
  "isSilentRef (stopPlayback s) = isSilentRef s"
  "currentUserTextRef (stopPlayback s) = currentUserTextRef s"
  "currentInterviewerTextRef (stopPlayback s) = currentInterviewerTextRef s"
  "appState (stopPlayback s) = appState s"
  "outputAudioContext (stopPlayback s) = outputAudioContext s"
  "outputGainNode (stopPlayback s) = outputGainNode s"
  "fresh (stopPlayback s) = fresh s"
  by (simp_all add: stopPlayback_def perform_def)

lemma scheduleAudio_fields [simp]:
  "silenceTimerRef (stateAfter (scheduleAudio d ct a s)) = silenceTimerRef s"
  "timeouts (stateAfter (scheduleAudio d ct a s)) = timeouts s"
  "hasSpokenInTurnRef (stateAfter (scheduleAudio d ct a s)) = hasSpokenInTurnRef s"
  "isSilentRef (stateAfter (scheduleAudio d ct a s)) = isSilentRef s"
  "currentUserTextRef (stateAfter (scheduleAudio d ct a s)) = currentUserTextRef s"
  "currentInterviewerTextRef (stateAfter (scheduleAudio d ct a s)) = currentInterviewerTextRef s"
  "appState (stateAfter (scheduleAudio d ct a s)) = appState s"
  "outputAudioContext (stateAfter (scheduleAudio d ct a s)) = outputAudioContext s"
  "outputGainNode (stateAfter (scheduleAudio d ct a s)) = outputGainNode s"
  by (simp_all add: scheduleAudio_def perform_def Let_def split: option.splits settled.splits)

lemma scheduleAudio_keeps_sources:
  "set (audioSources s) \<subseteq> set (audioSources (stateAfter (scheduleAudio d ct a s)))"
  by (auto simp: scheduleAudio_def perform_def Let_def split: option.splits settled.splits)

text \<open>What a handler that ran to its end has done.\<close>

lemma onmessage_Completed:
  assumes "onmessage d ct m s = Completed s'"
  obtains a s1 s3 where "messageAudio m = Inr a"
    and "scheduleAudio d ct a s = Completed s1"
    and "appendTranscriptions m (if isInterrupted m then stopPlayback s1 else s1) = Completed s3"
    and "s' = (if isTurnComplete m then finalizeTurn s3 else s3)"
proof (cases "messageAudio m")
  case (Inl e)
  then show ?thesis using assms by (simp add: onmessage_def)
next
  case (Inr a)
  show ?thesis
  proof (cases "scheduleAudio d ct a s")
    case (Aborted s1)
    then show ?thesis using assms Inr by (simp add: onmessage_def andThen_def)
  next
    case (Completed s1)
    show ?thesis
    proof (cases "appendTranscriptions m (if isInterrupted m then stopPlayback s1 else s1)")
      case (Aborted s3)
      then show ?thesis using assms Inr Completed by (simp add: onmessage_def andThen_def)
    next
      case c3: (Completed s3)
      have "s' = (if isTurnComplete m then finalizeTurn s3 else s3)"
        using assms Inr Completed c3 by (simp add: onmessage_def andThen_def)
      then show ?thesis using that Inr Completed c3 by blast
    qed
  qed
qed

text \<open>The handler runs to its end exactly when the first part of the model turn, if
  there is one, has inline data; that data, if it is scheduled, decodes; and the input
  transcription, if there is one, has a text.\<close>

lemma onmessage_completes_iff:
  "(\<exists>s'. onmessage d ct m s = Completed s') \<longleftrightarrow> handlerCompletes d m s"
proof (cases "messageAudio m")
  case (Inl e)
  then show ?thesis by (simp add: onmessage_def handlerCompletes_def)
next
  case (Inr a)
  have sch: "(\<exists>s1. scheduleAudio d ct a s = Completed s1)
               \<longleftrightarrow> (case (a, outputAudioContext s, outputGainNode s) of
                      (Some b, Some ctx, Some gain) \<Rightarrow> b = [] \<or> d b \<noteq> Rejected
                    | _ \<Rightarrow> True)"
    by (auto simp: scheduleAudio_def Let_def split: option.splits settled.splits)
  have app: "(\<exists>s3. appendTranscriptions m x = Completed s3)
               \<longleftrightarrow> (case Option.bind (serverContent m) inputTranscription of
                      Some tr \<Rightarrow> transcriptionText tr \<noteq> None
                    | None \<Rightarrow> True)" for x
    by (auto simp: appendTranscriptions_def appendInputTranscription_def andThen_def Let_def
          split: option.splits outcome.splits)
  show ?thesis
  proof (cases "scheduleAudio d ct a s")
    case (Aborted s1)
    then show ?thesis
      using sch by (simp add: onmessage_def handlerCompletes_def Inr andThen_def)
  next
    case (Completed s1)
    let ?x = "if isInterrupted m then stopPlayback s1 else s1"
    show ?thesis
    proof (cases "appendTranscriptions m ?x")
      case (Aborted s3)
      then show ?thesis
        using app [of ?x] by (simp add: onmessage_def handlerCompletes_def Inr Completed andThen_def)
    next
      case c3: (Completed s3)
      then show ?thesis
        using app [of ?x] sch Completed
        by (simp add: onmessage_def handlerCompletes_def Inr andThen_def)
    qed
  qed
qed

subsection \<open>Interruption\<close>

lemma interrupted_when_completed:
  assumes "onmessage d ct m s = Completed s'" "isInterrupted m"
  shows "audioSources s' = [] \<and> nextStartTime s' = 0
       \<and> (\<forall>source \<in> set (audioSources s). SourceStop source \<in> set (effects s'))"
proof -
  from assms(1) obtain a s1 s3 where a: "messageAudio m = Inr a"
    and s1: "scheduleAudio d ct a s = Completed s1"
    and s3: "appendTranscriptions m (if isInterrupted m then stopPlayback s1 else s1) = Completed s3"
    and s': "s' = (if isTurnComplete m then finalizeTurn s3 else s3)"
    by (rule onmessage_Completed)
  have k: "set (audioSources s) \<subseteq> set (audioSources s1)"
    using scheduleAudio_keeps_sources [of s d ct a] s1 by simp
  have e: "stateAfter (appendTranscriptions m (stopPlayback s1)) = s3"
    using s3 assms(2) by simp
  note f0 = appendTranscriptions_fields(1,2,3) [of m "stopPlayback s1", unfolded e]
  have f: "audioSources s3 = []" "nextStartTime s3 = 0"
    "effects s3 = effects s1 @ map SourceStop (audioSources s1)"
    using f0 by simp_all
  show ?thesis
    using k f by (auto simp: s')
qed

text \<open>
  Claim C2.  The claim asks that every message with the \<open>interrupted\<close> flag stop every
  active source, empty the active set and set the cursor to 0.  The handler does so when
  it runs to its end (\<open>interrupted_when_completed\<close>), but it reads the audio payload first,
  without a guard on \<open>inlineData\<close>: on a message whose model turn starts with a part that
  has no inline data, with two sources playing and the cursor at 9, it throws before the
  \<open>interrupted\<close> branch; no source is stopped, both stay in the active set and the cursor
  stays at 9.
\<close>

theorem interrupted_lost_on_text_part:
  "isInterrupted
     \<lparr> serverContent = Some \<lparr> modelTurn = Some (Content (Some [Part None])),
          interrupted = True, outputTranscription = None, inputTranscription = None,
          turnComplete = False \<rparr> \<rparr>
   \<and> onmessage (\<lambda>b. Fulfilled 1) 7
       \<lparr> serverContent = Some \<lparr> modelTurn = Some (Content (Some [Part None])),
            interrupted = True, outputTranscription = None, inputTranscription = None,
            turnComplete = False \<rparr> \<rparr>
       (initialApp\<lparr> outputAudioContext := Some 1, outputGainNode := Some 2,
                    audioSources := [3, 4], nextStartTime := 9, fresh := 5 \<rparr>)
     = Aborted (initialApp\<lparr> outputAudioContext := Some 1, outputGainNode := Some 2,
                            audioSources := [3, 4], nextStartTime := 9, fresh := 5 \<rparr>)
   \<and> audioSources (initialApp\<lparr> outputAudioContext := Some 1, outputGainNode := Some 2,
                                audioSources := [3, 4], nextStartTime := 9, fresh := 5 \<rparr>)
       = [3, 4]
   \<and> effects (initialApp\<lparr> outputAudioContext := Some 1, outputGainNode := Some 2,
                           audioSources := [3, 4], nextStartTime := 9, fresh := 5 \<rparr>) = []"
  by (simp add: isInterrupted_def onmessage_def messageAudio_def initialApp_def)

subsection \<open>The end of a turn\<close>

lemma turnComplete_when_completed:
  assumes "onmessage d ct m s = Completed s'" "isTurnComplete m"
  shows "\<not> hasSpokenInTurnRef s' \<and> \<not> isSilentRef s' \<and> silenceTimerRef s' = None
       \<and> (\<forall>h. silenceTimerRef s = Some h \<longrightarrow> h \<notin> fst ` set (timeouts s'))
       \<and> (timerOwned s \<longrightarrow> timeouts s' = [])"
proof -
  from assms(1) obtain a s1 s3 where a: "messageAudio m = Inr a"
    and s1: "scheduleAudio d ct a s = Completed s1"
    and s3: "appendTranscriptions m (if isInterrupted m then stopPlayback s1 else s1) = Completed s3"
    and s': "s' = (if isTurnComplete m then finalizeTurn s3 else s3)"
    by (rule onmessage_Completed)
  have e1: "stateAfter (scheduleAudio d ct a s) = s1"
    using s1 by simp
  note r1 = scheduleAudio_fields(1,2) [of d ct a s, unfolded e1]
  have e3: "stateAfter (appendTranscriptions m (if isInterrupted m then stopPlayback s1 else s1))
              = s3"
    using s3 by simp
  note r0 = appendTranscriptions_fields(4,5)
    [of m "if isInterrupted m then stopPlayback s1 else s1", unfolded e3]
  have r3: "silenceTimerRef s3 = silenceTimerRef s" "timeouts s3 = timeouts s"
    using r0 r1 by simp_all
  have eq: "s' = finalizeTurn s3" using s' assms(2) by simp
  have gone: "\<forall>h. silenceTimerRef s = Some h \<longrightarrow> h \<notin> fst ` set (timeouts (finalizeTurn s3))"
    by (auto simp: finalizeTurn_timeouts r3)
  have none: "timerOwned s \<longrightarrow> timeouts (finalizeTurn s3) = []"
    by (cases "silenceTimerRef s")
       (simp_all add: finalizeTurn_timeouts r3 timerOwned_None timerOwned_Some)
  show ?thesis
    unfolding eq using gone none by simp
qed

text \<open>
  Claim C4.  The claim asks that a message with \<open>turnComplete\<close> reset the segmenter in
  every state.  The handler does so when it runs to its end
  (\<open>turnComplete_when_completed\<close>), but on a \<open>turnComplete\<close> message whose model turn starts
  with a part that has no inline data it throws at the first line: in a suspended state
  with the timer reference set, \<open>hasSpokenInTurnRef\<close> and \<open>isSilentRef\<close> stay true, the
  reference stays set and sending stays suspended.
\<close>

theorem turnComplete_lost_on_text_part:
  "isTurnComplete
     \<lparr> serverContent = Some \<lparr> modelTurn = Some (Content (Some [Part None])),
          interrupted = False, outputTranscription = None, inputTranscription = None,
          turnComplete = True \<rparr> \<rparr>
   \<and> hasSpokenInTurnRef (stateAfter (onmessage (\<lambda>b. Fulfilled 1) 0
        \<lparr> serverContent = Some \<lparr> modelTurn = Some (Content (Some [Part None])),
             interrupted = False, outputTranscription = None, inputTranscription = None,
             turnComplete = True \<rparr> \<rparr>
        (initialApp\<lparr> silenceTimerRef := Some 5, hasSpokenInTurnRef := True,
                     isSilentRef := True, fresh := 6 \<rparr>)))
   \<and> isSilentRef (stateAfter (onmessage (\<lambda>b. Fulfilled 1) 0
        \<lparr> serverContent = Some \<lparr> modelTurn = Some (Content (Some [Part None])),
             interrupted = False, outputTranscription = None, inputTranscription = None,
             turnComplete = True \<rparr> \<rparr>
        (initialApp\<lparr> silenceTimerRef := Some 5, hasSpokenInTurnRef := True,
                     isSilentRef := True, fresh := 6 \<rparr>)))
   \<and> silenceTimerRef (stateAfter (onmessage (\<lambda>b. Fulfilled 1) 0
        \<lparr> serverContent = Some \<lparr> modelTurn = Some (Content (Some [Part None])),
             interrupted = False, outputTranscription = None, inputTranscription = None,
             turnComplete = True \<rparr> \<rparr>
        (initialApp\<lparr> silenceTimerRef := Some 5, hasSpokenInTurnRef := True,
                     isSilentRef := True, fresh := 6 \<rparr>))) = Some 5"
  by (simp add: isTurnComplete_def onmessage_def messageAudio_def initialApp_def)

section \<open>Properties of the transcript\<close>

lemma appReducer_FINALIZE_TURN:
  "transcript (appReducer st (FINALIZE_TURN user interviewer))
     = transcript st
       @ (if user \<noteq> [] then [\<lparr> speaker = You, entryText = user \<rparr>] else [])
       @ (if interviewer \<noteq> [] then [\<lparr> speaker = Interviewer, entryText = interviewer \<rparr>] else [])"
  "currentUserText (appReducer st (FINALIZE_TURN user interviewer)) = []"
  "currentInterviewerText (appReducer st (FINALIZE_TURN user interviewer)) = []"
  by (simp_all add: Let_def)

lemma appendTranscriptions_buffers:
  assumes "appendTranscriptions m s = Completed s3"
  shows "currentUserTextRef s3 = currentUserTextRef s @ appendedUserText m"
    and "currentInterviewerTextRef s3 = currentInterviewerTextRef s @ appendedInterviewerText m"
  using assms
  by (auto simp: appendTranscriptions_def appendInputTranscription_def
        appendOutputTranscription_def andThen_def Let_def appendedUserText_def
        appendedInterviewerText_def dispatch_def
        split: option.splits outcome.splits if_splits)

text \<open>When the handler runs to its end on a message with \<open>turnComplete\<close>: an entry of
  speaker \<open>You\<close> with the trimmed user buffer if that is not empty, then an entry of
  speaker \<open>Interviewer\<close> with the trimmed interviewer buffer if that is not empty, and
  both buffers are empty afterwards.\<close>

lemma transcript_when_completed:
  assumes "onmessage d ct m s = Completed s'" "isTurnComplete m"
  shows "transcript (appState s')
           = transcript (appState s)
             @ (if trim (currentUserTextRef s @ appendedUserText m) \<noteq> []
                then [\<lparr> speaker = You,
                        entryText = trim (currentUserTextRef s @ appendedUserText m) \<rparr>]
                else [])
             @ (if trim (currentInterviewerTextRef s @ appendedInterviewerText m) \<noteq> []
                then [\<lparr> speaker = Interviewer,
                        entryText = trim (currentInterviewerTextRef s
                                          @ appendedInterviewerText m) \<rparr>]
                else [])
       \<and> currentUserTextRef s' = [] \<and> currentInterviewerTextRef s' = []
       \<and> currentUserText (appState s') = [] \<and> currentInterviewerText (appState s') = []"
proof -
  from assms(1) obtain a s1 s3 where a: "messageAudio m = Inr a"
    and s1: "scheduleAudio d ct a s = Completed s1"
    and s3: "appendTranscriptions m (if isInterrupted m then stopPlayback s1 else s1) = Completed s3"
    and s': "s' = (if isTurnComplete m then finalizeTurn s3 else s3)"
    by (rule onmessage_Completed)
  let ?s2 = "if isInterrupted m then stopPlayback s1 else s1"
  have e1: "stateAfter (scheduleAudio d ct a s) = s1"
    using s1 by simp
  note r1 = scheduleAudio_fields(5,6,7) [of d ct a s, unfolded e1]
  have b2: "currentUserTextRef ?s2 = currentUserTextRef s"
    "currentInterviewerTextRef ?s2 = currentInterviewerTextRef s"
    "transcript (appState ?s2) = transcript (appState s)"
    using r1 by simp_all
  have e3: "stateAfter (appendTranscriptions m ?s2) = s3"
    using s3 by simp
  note t0 = appendTranscriptions_fields(8) [of m ?s2, unfolded e3]
  have t: "transcript (appState s3) = transcript (appState s)"
    using t0 b2(3) by simp
  have u: "currentUserTextRef s3 = currentUserTextRef s @ appendedUserText m"
    and i: "currentInterviewerTextRef s3 = currentInterviewerTextRef s @ appendedInterviewerText m"
    using appendTranscriptions_buffers [OF s3] b2 by simp_all
  have eq: "s' = finalizeTurn s3" using s' assms(2) by simp
  show ?thesis
    unfolding eq finalizeTurn_fields appReducer_FINALIZE_TURN u i t by simp
qed

text \<open>The two examples of the specification, on a message that carries only the flag.\<close>

lemma transcript_examples:
  "transcript (appState (stateAfter (onmessage (\<lambda>b. Fulfilled 1) 0
        \<lparr> serverContent = Some \<lparr> modelTurn = None, interrupted = False,
             outputTranscription = None, inputTranscription = None, turnComplete = True \<rparr> \<rparr>
        (initialApp\<lparr> currentUserTextRef := ''hello'',
                     currentInterviewerTextRef := ''hi there'' \<rparr>))))
     = [\<lparr> speaker = You, entryText = ''hello'' \<rparr>,
        \<lparr> speaker = Interviewer, entryText = ''hi there'' \<rparr>]
   \<and> transcript (appState (stateAfter (onmessage (\<lambda>b. Fulfilled 1) 0
        \<lparr> serverContent = Some \<lparr> modelTurn = None, interrupted = False,
             outputTranscription = None, inputTranscription = None, turnComplete = True \<rparr> \<rparr>
        (initialApp\<lparr> currentUserTextRef := ''  '',
                     currentInterviewerTextRef := '' hi there '' \<rparr>))))
     = [\<lparr> speaker = Interviewer, entryText = ''hi there'' \<rparr>]"
proof -
  let ?m = "\<lparr> serverContent = Some \<lparr> modelTurn = None, interrupted = False,
             outputTranscription = None, inputTranscription = None, turnComplete = True \<rparr> \<rparr>"
  have a: "trim ''hello'' = ''hello''" "trim ''hi there'' = ''hi there''"
    "trim ''  '' = []" "trim '' hi there '' = ''hi there''"
    by code_simp+
  have t: "transcript (appState initialApp) = []"
    by (simp add: initialApp_def initialState_def)
  have c: "handlerCompletes (\<lambda>b. Fulfilled 1) ?m s" for s
    by (simp add: handlerCompletes_def messageAudio_def)
  have tc: "isTurnComplete ?m"
    by (simp add: isTurnComplete_def)
  have n: "appendedUserText ?m = []" "appendedInterviewerText ?m = []"
    by (simp_all add: appendedUserText_def appendedInterviewerText_def)
  have r: "transcript (appState (stateAfter (onmessage (\<lambda>b. Fulfilled 1) 0 ?m s)))
             = transcript (appState s)
               @ (if trim (currentUserTextRef s) \<noteq> []
                  then [\<lparr> speaker = You, entryText = trim (currentUserTextRef s) \<rparr>] else [])
               @ (if trim (currentInterviewerTextRef s) \<noteq> []
                  then [\<lparr> speaker = Interviewer, entryText = trim (currentInterviewerTextRef s) \<rparr>]
                  else [])" for s
  proof -
    obtain s' where s': "onmessage (\<lambda>b. Fulfilled 1) 0 ?m s = Completed s'"
      using onmessage_completes_iff [of "\<lambda>b. Fulfilled 1" 0 ?m s] c by blast
    show ?thesis
      using transcript_when_completed [OF s' tc] by (simp add: s' n)
  qed
  show ?thesis
    by (simp add: r a t)
qed

text \<open>
  Claim C3.  The claim asks that a message with \<open>turnComplete\<close> move the two buffers into
  the transcript and clear them, for every pair of buffers.  The handler does so when it
  runs to its end (\<open>transcript_when_completed\<close>), but on a \<open>turnComplete\<close> message whose
  model turn starts with a part that has no inline data it throws at the first line: with
  user text \<open>hello\<close> and interviewer text \<open>hi there\<close> in the buffers, nothing is appended
  to the transcript and both buffers keep their text.
\<close>

theorem transcript_lost_on_text_part:
  "isTurnComplete
     \<lparr> serverContent = Some \<lparr> modelTurn = Some (Content (Some [Part None])),
          interrupted = False, outputTranscription = None, inputTranscription = None,
          turnComplete = True \<rparr> \<rparr>
   \<and> transcript (appState (stateAfter (onmessage (\<lambda>b. Fulfilled 1) 0
        \<lparr> serverContent = Some \<lparr> modelTurn = Some (Content (Some [Part None])),
             interrupted = False, outputTranscription = None, inputTranscription = None,
             turnComplete = True \<rparr> \<rparr>
        (initialApp\<lparr> currentUserTextRef := ''hello'',
                     currentInterviewerTextRef := ''hi there'' \<rparr>)))) = []
   \<and> currentUserTextRef (stateAfter (onmessage (\<lambda>b. Fulfilled 1) 0
        \<lparr> serverContent = Some \<lparr> modelTurn = Some (Content (Some [Part None])),
             interrupted = False, outputTranscription = None, inputTranscription = None,
             turnComplete = True \<rparr> \<rparr>
        (initialApp\<lparr> currentUserTextRef := ''hello'',
                     currentInterviewerTextRef := ''hi there'' \<rparr>))) = ''hello''
   \<and> currentInterviewerTextRef (stateAfter (onmessage (\<lambda>b. Fulfilled 1) 0
        \<lparr> serverContent = Some \<lparr> modelTurn = Some (Content (Some [Part None])),
             interrupted = False, outputTranscription = None, inputTranscription = None,
             turnComplete = True \<rparr> \<rparr>
        (initialApp\<lparr> currentUserTextRef := ''hello'',
                     currentInterviewerTextRef := ''hi there'' \<rparr>))) = ''hi there''"
  by (simp add: isTurnComplete_def onmessage_def messageAudio_def initialApp_def initialState_def)

text \<open>The same loss when the audio of the message does not decode, and when its input
  transcription has no text; a text-less output transcription is spelled out.\<close>

lemma transcript_lost_other_ways:
  "transcript (appState (stateAfter (onmessage (\<lambda>b. Rejected) 0
        \<lparr> serverContent = Some \<lparr> modelTurn = Some (Content (Some [Part (Some (Some ''AAAA''))])),
             interrupted = False, outputTranscription = None, inputTranscription = None,
             turnComplete = True \<rparr> \<rparr>
        (initialApp\<lparr> outputAudioContext := Some 1, outputGainNode := Some 2, fresh := 3,
                     currentUserTextRef := ''hello'' \<rparr>)))) = []"
  "transcript (appState (stateAfter (onmessage (\<lambda>b. Fulfilled 1) 0
        \<lparr> serverContent = Some \<lparr> modelTurn = None, interrupted = False,
             outputTranscription = None, inputTranscription = Some (Transcription None),
             turnComplete = True \<rparr> \<rparr>
        (initialApp\<lparr> currentUserTextRef := ''hello'' \<rparr>)))) = []"
  "currentInterviewerTextRef (stateAfter (onmessage (\<lambda>b. Fulfilled 1) 0
        \<lparr> serverContent = Some \<lparr> modelTurn = None, interrupted = False,
             outputTranscription = Some (Transcription None), inputTranscription = None,
             turnComplete = False \<rparr> \<rparr>
        (initialApp\<lparr> currentInterviewerTextRef := ''hi '' \<rparr>))) = ''hi undefined''"
  by (simp_all add: onmessage_def messageAudio_def scheduleAudio_def andThen_def
        appendTranscriptions_def appendInputTranscription_def appendOutputTranscription_def
        textOrUndefined_def isInterrupted_def isTurnComplete_def dispatch_def Let_def
        initialApp_def initialState_def)

section \<open>Properties of the teardown\<close>

lemma handles_None [simp]: "handles [None] = []" "handles [None, None] = []"
  "handles [None, None, None, None] = []"
  by (simp_all add: handles_def)








section \<open>Properties of the playback timeline\<close>

lemma scheduledStarts_eq:
  "effects s' = effects s @ es \<Longrightarrow>
   scheduledStarts s'
     = scheduledStarts s
       @ concat (map (\<lambda>e. case e of SourceStart source when \<Rightarrow> [when] | _ \<Rightarrow> []) es)"
  by (simp add: scheduledStarts_def)

text \<open>After the audio is scheduled, nothing in the handler touches the cursor, the calls
  made or the output nodes, unless the message is an interruption; this holds whether the
  handler then runs to its end or throws.\<close>

lemma onmessage_after_schedule_all:
  assumes "messageAudio m = Inr a" "scheduleAudio d ct a s = Completed s1" "\<not> isInterrupted m"
  shows "nextStartTime (stateAfter (onmessage d ct m s)) = nextStartTime s1
       \<and> effects (stateAfter (onmessage d ct m s)) = effects s1
       \<and> audioSources (stateAfter (onmessage d ct m s)) = audioSources s1
       \<and> outputAudioContext (stateAfter (onmessage d ct m s)) = outputAudioContext s1
       \<and> outputGainNode (stateAfter (onmessage d ct m s)) = outputGainNode s1"
proof -
  have om: "onmessage d ct m s
      = andThen (appendTranscriptions m s1)
          (\<lambda>s3. Completed (if isTurnComplete m then finalizeTurn s3 else s3))"
    using assms by (simp add: onmessage_def andThen_def)
  show ?thesis
  proof (cases "appendTranscriptions m s1")
    case (Completed s3)
    then have e: "stateAfter (appendTranscriptions m s1) = s3" by simp
    note f = appendTranscriptions_fields(1,2,3,6,7) [of m s1, unfolded e]
    show ?thesis using f by (simp add: om Completed andThen_def)
  next
    case (Aborted s3)
    then have e: "stateAfter (appendTranscriptions m s1) = s3" by simp
    note f = appendTranscriptions_fields(1,2,3,6,7) [of m s1, unfolded e]
    show ?thesis using f by (simp add: om Aborted andThen_def)
  qed
qed

lemma onmessage_after_schedule:
  assumes "messageAudio m = Inr a" "scheduleAudio d ct a s = Completed s1" "\<not> isInterrupted m"
  shows "nextStartTime (stateAfter (onmessage d ct m s)) = nextStartTime s1"
    and "effects (stateAfter (onmessage d ct m s)) = effects s1"
    and "audioSources (stateAfter (onmessage d ct m s)) = audioSources s1"
    and "outputAudioContext (stateAfter (onmessage d ct m s)) = outputAudioContext s1"
    and "outputGainNode (stateAfter (onmessage d ct m s)) = outputGainNode s1"
  using onmessage_after_schedule_all [OF assms] by blast+

text \<open>One chunk: it starts at the maximum of the cursor and the current time, and the
  cursor moves to that start plus the chunk's duration, added as numbers.\<close>

lemma onmessage_chunk:
  assumes "outputAudioContext s \<noteq> None" "outputGainNode s \<noteq> None"
      and "chunkDuration d m = Some dur" "\<not> isInterrupted m"
  shows "nextStartTime (stateAfter (onmessage d ct m s))
           = addDouble (max (nextStartTime s) ct) dur"
    and "scheduledStarts (stateAfter (onmessage d ct m s))
           = scheduledStarts s @ [max (nextStartTime s) ct]"
    and "outputAudioContext (stateAfter (onmessage d ct m s)) = outputAudioContext s"
    and "outputGainNode (stateAfter (onmessage d ct m s)) = outputGainNode s"
proof -
  obtain c g where cg: "outputAudioContext s = Some c" "outputGainNode s = Some g"
    using assms(1,2) by auto
  obtain b where b: "messageAudio m = Inr (Some b)" "b \<noteq> []" "d b = Fulfilled dur"
    using assms(3)
    by (auto simp: chunkDuration_def split: sum.splits option.splits if_splits settled.splits)
  let ?s1 = "(perform [SourceConnect (fresh s) g, SourceStart (fresh s) (max (nextStartTime s) ct)]
               (s\<lparr> nextStartTime := max (nextStartTime s) ct \<rparr>))
             \<lparr> fresh := Suc (fresh s),
               nextStartTime := addDouble (max (nextStartTime s) ct) dur,
               audioSources := audioSources s @ [fresh s] \<rparr>"
  have sch: "scheduleAudio d ct (Some b) s = Completed ?s1"
    using b cg by (simp add: scheduleAudio_def Let_def)
  note after = onmessage_after_schedule [OF b(1) sch assms(4)]
  show "nextStartTime (stateAfter (onmessage d ct m s))
          = addDouble (max (nextStartTime s) ct) dur"
    unfolding after by simp
  have "effects (stateAfter (onmessage d ct m s))
          = effects s @ [SourceConnect (fresh s) g,
                         SourceStart (fresh s) (max (nextStartTime s) ct)]"
    unfolding after by (simp add: perform_def)
  then show "scheduledStarts (stateAfter (onmessage d ct m s))
               = scheduledStarts s @ [max (nextStartTime s) ct]"
    by (simp add: scheduledStarts_eq)
  show "outputAudioContext (stateAfter (onmessage d ct m s)) = outputAudioContext s"
    unfolding after by (simp add: perform_def)
  show "outputGainNode (stateAfter (onmessage d ct m s)) = outputGainNode s"
    unfolding after by (simp add: perform_def)
qed

lemma timelineCursors_nonempty [simp]: "timelineCursors c chunks \<noteq> []"
  by (cases chunks) auto

lemma onmessages_timeline:
  assumes "outputAudioContext s \<noteq> None" "outputGainNode s \<noteq> None"
      and "\<forall>cm \<in> set ms. chunkDuration d (snd cm) \<noteq> None \<and> \<not> isInterrupted (snd cm)"
  shows "scheduledStarts (onmessages d s ms)
           = scheduledStarts s @ timelineStarts (nextStartTime s) (map (chunkOf d) ms)
       \<and> nextStartTime (onmessages d s ms)
           = last (timelineCursors (nextStartTime s) (map (chunkOf d) ms))"
  using assms
proof (induction ms arbitrary: s)
  case Nil
  then show ?case by simp
next
  case (Cons cm ms)
  obtain ct m where cm: "cm = (ct, m)" by (cases cm)
  from Cons.prems(3) cm obtain dur where dur: "chunkDuration d m = Some dur"
    and ni: "\<not> isInterrupted m"
    by auto
  note step = onmessage_chunk [OF Cons.prems(1,2) dur ni, of ct]
  have ready: "outputAudioContext (stateAfter (onmessage d ct m s)) \<noteq> None"
    "outputGainNode (stateAfter (onmessage d ct m s)) \<noteq> None"
    using step(3,4) Cons.prems(1,2) by simp_all
  have rest: "\<forall>cm \<in> set ms. chunkDuration d (snd cm) \<noteq> None \<and> \<not> isInterrupted (snd cm)"
    using Cons.prems(3) by simp
  have chunk: "chunkOf d (ct, m) = (ct, dur)"
    by (simp add: chunkOf_def dur)
  show ?case
    using Cons.IH [OF ready rest] step(1,2)
    by (simp add: cm chunk max.commute)
qed

lemma length_timelineStarts [simp]: "length (timelineStarts c chunks) = length chunks"
  by (induction chunks arbitrary: c) auto

lemma timelineStarts_cursor:
  "i < length chunks \<Longrightarrow> timelineCursors c chunks ! i \<le> timelineStarts c chunks ! i"
proof (induction chunks arbitrary: c i)
  case Nil
  then show ?case by simp
next
  case (Cons x chunks)
  obtain ct dur where x: "x = (ct, dur)" by (cases x)
  show ?case
  proof (cases i)
    case 0
    then show ?thesis by (simp add: x)
  next
    case (Suc k)
    then show ?thesis using Cons.prems Cons.IH [of k] by (simp add: x)
  qed
qed

lemma timelineStarts_third:
  "timelineStarts c [(t1, d1), (t2, d2), (t3, d3)] ! 2
     = max t3 (addDouble (max t2 (addDouble (max t1 c) d1)) d2)"
  by simp

text \<open>The cursor is never below the durations so far, added up as numbers.\<close>

lemma timelineCursors_sumDouble:
  assumes "0 \<le> a" "a \<le> c" "\<forall>x \<in> set chunks. 0 \<le> snd x" "i \<le> length chunks"
  shows "foldl addDouble a (take i (map snd chunks)) \<le> timelineCursors c chunks ! i"
  using assms
proof (induction chunks arbitrary: a c i)
  case Nil
  then show ?case by simp
next
  case (Cons x chunks)
  obtain ct dur where x: "x = (ct, dur)" by (cases x)
  have dur: "0 \<le> dur" using Cons.prems(3) x by simp
  show ?case
  proof (cases i)
    case 0
    then show ?thesis using Cons.prems(2) by (simp add: x)
  next
    case (Suc k)
    have k: "k \<le> length chunks" using Cons.prems(4) Suc by simp
    have a': "0 \<le> addDouble a dur"
      using Cons.prems(1) dur by (rule addDouble_nonneg)
    have "a \<le> max ct c" using Cons.prems(2) by simp
    then have le: "addDouble a dur \<le> addDouble (max ct c) dur"
      using Cons.prems(1) dur by (intro addDouble_mono)
    have rest: "\<forall>x \<in> set chunks. 0 \<le> snd x" using Cons.prems(3) by simp
    have "foldl addDouble (addDouble a dur) (take k (map snd chunks))
            \<le> timelineCursors (addDouble (max ct c) dur) chunks ! k"
      by (rule Cons.IH [OF a' le rest k])
    then show ?thesis by (simp add: Suc x)
  qed
qed

text \<open>The cursor does not go backwards.\<close>

lemma timelineCursors_from:
  assumes "0 \<le> c" "isDouble c" "\<forall>x \<in> set chunks. isDouble (fst x) \<and> 0 \<le> snd x"
  shows "sorted (timelineCursors c chunks) \<and> (\<forall>y \<in> set (timelineCursors c chunks). c \<le> y)"
  using assms
proof (induction chunks arbitrary: c)
  case Nil
  then show ?case by simp
next
  case (Cons x chunks)
  obtain ct dur where x: "x = (ct, dur)" by (cases x)
  have ct: "isDouble ct" and dur: "0 \<le> dur" using Cons.prems(3) x by simp_all
  let ?c' = "addDouble (max ct c) dur"
  have m0: "0 \<le> max ct c" using Cons.prems(1) by simp
  have md: "isDouble (max ct c)" using ct Cons.prems(2) by (rule isDouble_max)
  have up: "max ct c \<le> ?c'" using m0 md dur by (rule addDouble_increases)
  have c0: "0 \<le> ?c'" using m0 up by (rule order_trans)
  have cd: "isDouble ?c'" using m0 dur by (rule addDouble_isDouble)
  have rest: "\<forall>x \<in> set chunks. isDouble (fst x) \<and> 0 \<le> snd x" using Cons.prems(3) by simp
  have ih: "sorted (timelineCursors ?c' chunks) \<and> (\<forall>y \<in> set (timelineCursors ?c' chunks). ?c' \<le> y)"
    by (rule Cons.IH [OF c0 cd rest])
  have "c \<le> ?c'" using up by simp
  then have "\<forall>y \<in> set (timelineCursors ?c' chunks). c \<le> y"
    using ih by fastforce
  then show ?case using ih by (simp add: x)
qed

text \<open>
  Claim C1, with the arithmetic the code has.  While the output context and its gain node
  exist, for every list of messages that each carry a chunk (inline data that is not
  empty and that decodes) and no \<open>interrupted\<close> flag, the cursor, the current output times
  and the durations being finite numbers that are not negative and the cursor staying
  finite: the \<open>start\<close> calls made are, in order, those of the timeline (each chunk starts
  at the maximum of the current output time and the cursor, and the cursor then moves by
  the chunk's duration), and the cursor ends where the timeline ends.  Chunk \<open>i\<close> starts no earlier than the durations of
  the chunks before it added up as numbers, from 0 and in order, each partial sum rounded;
  and the cursor never decreases from one chunk to the next.
\<close>

theorem chunks_follow_timeline:
  assumes "outputAudioContext s \<noteq> None" "outputGainNode s \<noteq> None"
      and "\<forall>cm \<in> set ms. chunkDuration d (snd cm) \<noteq> None \<and> \<not> isInterrupted (snd cm)"
      and "isTime (nextStartTime s)"
      and "\<forall>cm \<in> set ms. isTime (fst cm) \<and> isTime (snd (chunkOf d cm))"
      and "\<forall>c \<in> set (timelineCursors (nextStartTime s) (map (chunkOf d) ms)). c < 2 ^ 1024"
  shows "scheduledStarts (onmessages d s ms)
           = scheduledStarts s @ timelineStarts (nextStartTime s) (map (chunkOf d) ms)
       \<and> nextStartTime (onmessages d s ms)
           = last (timelineCursors (nextStartTime s) (map (chunkOf d) ms))
       \<and> (\<forall>i < length ms.
             sumDouble (take i (map (snd \<circ> chunkOf d) ms))
               \<le> timelineStarts (nextStartTime s) (map (chunkOf d) ms) ! i)
       \<and> sorted (timelineCursors (nextStartTime s) (map (chunkOf d) ms))"
proof -
  let ?chunks = "map (chunkOf d) ms"
  have c0: "0 \<le> nextStartTime s" and cd: "isDouble (nextStartTime s)"
    using assms(4) by (simp_all add: isTime_def)
  have nn: "\<forall>x \<in> set ?chunks. 0 \<le> snd x"
    using assms(5) by (simp add: isTime_def)
  have dd: "\<forall>x \<in> set ?chunks. isDouble (fst x) \<and> 0 \<le> snd x"
    using assms(5) by (simp add: isTime_def chunkOf_def)
  have sum: "sumDouble (take i (map (snd \<circ> chunkOf d) ms))
               \<le> timelineStarts (nextStartTime s) ?chunks ! i"
    if i: "i < length ms" for i
  proof -
    have "foldl addDouble 0 (take i (map snd ?chunks))
            \<le> timelineCursors (nextStartTime s) ?chunks ! i"
      using c0 nn i by (intro timelineCursors_sumDouble) simp_all
    also have "\<dots> \<le> timelineStarts (nextStartTime s) ?chunks ! i"
      using i by (intro timelineStarts_cursor) simp
    finally show ?thesis by (simp add: sumDouble_def)
  qed
  have mono: "sorted (timelineCursors (nextStartTime s) ?chunks)"
    using timelineCursors_from [OF c0 cd dd] by simp
  show ?thesis
    using onmessages_timeline [OF assms(1,2,3)] sum mono by blast
qed

text \<open>
  Three chunks of half a second, arriving at output times 0, 0.25 and 2: they start at 0,
  0.5 and 2, and the cursor ends at 2.5.
\<close>

theorem chunks_follow_timeline_witness:
  "scheduledStarts (onmessages (\<lambda>b. Fulfilled (1 / 2))
      (initialApp\<lparr> outputAudioContext := Some 1, outputGainNode := Some 2, fresh := 3 \<rparr>)
      [(0, \<lparr> serverContent = Some \<lparr> modelTurn = Some (Content (Some [Part (Some (Some ''AAAA''))])),
                interrupted = False, outputTranscription = None, inputTranscription = None,
                turnComplete = False \<rparr> \<rparr>),
       (1 / 4, \<lparr> serverContent = Some \<lparr> modelTurn = Some (Content (Some [Part (Some (Some ''AAAA''))])),
                interrupted = False, outputTranscription = None, inputTranscription = None,
                turnComplete = False \<rparr> \<rparr>),
       (2, \<lparr> serverContent = Some \<lparr> modelTurn = Some (Content (Some [Part (Some (Some ''AAAA''))])),
                interrupted = False, outputTranscription = None, inputTranscription = None,
                turnComplete = False \<rparr> \<rparr>)])
     = [0, 1 / 2, 2]
   \<and> nextStartTime (onmessages (\<lambda>b. Fulfilled (1 / 2))
      (initialApp\<lparr> outputAudioContext := Some 1, outputGainNode := Some 2, fresh := 3 \<rparr>)
      [(0, \<lparr> serverContent = Some \<lparr> modelTurn = Some (Content (Some [Part (Some (Some ''AAAA''))])),
                interrupted = False, outputTranscription = None, inputTranscription = None,
                turnComplete = False \<rparr> \<rparr>),
       (1 / 4, \<lparr> serverContent = Some \<lparr> modelTurn = Some (Content (Some [Part (Some (Some ''AAAA''))])),
                interrupted = False, outputTranscription = None, inputTranscription = None,
                turnComplete = False \<rparr> \<rparr>),
       (2, \<lparr> serverContent = Some \<lparr> modelTurn = Some (Content (Some [Part (Some (Some ''AAAA''))])),
                interrupted = False, outputTranscription = None, inputTranscription = None,
                turnComplete = False \<rparr> \<rparr>)])
     = 5 / 2"
proof -
  let ?d = "\<lambda>b :: string. Fulfilled (1 / 2 :: real)"
  let ?s = "initialApp\<lparr> outputAudioContext := Some 1, outputGainNode := Some 2, fresh := 3 \<rparr>"
  let ?m = "\<lparr> serverContent = Some \<lparr> modelTurn = Some (Content (Some [Part (Some (Some ''AAAA''))])),
                interrupted = False, outputTranscription = None, inputTranscription = None,
                turnComplete = False \<rparr> \<rparr>"
  let ?ms = "[(0, ?m), (1 / 4, ?m), (2 :: real, ?m)]"
  have r: "outputAudioContext ?s \<noteq> None" "outputGainNode ?s \<noteq> None"
    by simp_all
  have cdur: "chunkDuration ?d ?m = Some (1 / 2)"
    by (simp add: chunkDuration_def messageAudio_def)
  have cn: "chunkDuration ?d ?m \<noteq> None"
    unfolding cdur by simp
  have c: "\<forall>cm \<in> set ?ms. chunkDuration ?d (snd cm) \<noteq> None \<and> \<not> isInterrupted (snd cm)"
    using cn by (simp add: isInterrupted_def)
  have i: "scheduledStarts ?s = []" "nextStartTime ?s = 0"
    by (simp_all add: scheduledStarts_def initialApp_def)
  have t0: "isTime 0"
    by (simp add: isTime_def)
  have th: "isTime (1 / 2)" and tq: "isTime (1 / 4)" and t2: "isTime 2"
    by (simp_all add: isTime_def isDouble_def roundDouble_half roundDouble_quarter roundDouble_2)
  have n: "isTime (nextStartTime ?s)"
    unfolding i by (rule t0)
  have ch: "map (chunkOf ?d) ?ms = [(0, 1 / 2), (1 / 4, 1 / 2), (2, 1 / 2)]"
    by (simp add: chunkOf_def cdur)
  have tm: "\<forall>cm \<in> set ?ms. isTime (fst cm) \<and> isTime (snd (chunkOf ?d cm))"
    using t0 th tq t2 by (simp add: chunkOf_def cdur)
  have a1: "addDouble 0 (1 / 2) = 1 / 2" "addDouble (1 / 2) (1 / 2) = 1"
    "addDouble 2 (1 / 2) = 5 / 2"
    by (simp_all add: addDouble_def roundDouble_half roundDouble_1 roundDouble_5_2)
  have t: "timelineStarts 0 [(0, 1 / 2), (1 / 4, 1 / 2), (2, 1 / 2)] = [0, 1 / 2, 2]"
    "timelineCursors 0 [(0, 1 / 2), (1 / 4, 1 / 2), (2, 1 / 2)] = [0, 1 / 2, 1, 5 / 2]"
    by (simp_all add: a1)
  have rg: "\<forall>c \<in> set (timelineCursors (nextStartTime ?s) (map (chunkOf ?d) ?ms)). c < 2 ^ 1024"
    unfolding ch i t by simp
  have a: "scheduledStarts (onmessages ?d ?s ?ms)
             = scheduledStarts ?s @ timelineStarts (nextStartTime ?s) (map (chunkOf ?d) ?ms)"
    and b: "nextStartTime (onmessages ?d ?s ?ms)
             = last (timelineCursors (nextStartTime ?s) (map (chunkOf ?d) ?ms))"
    using chunks_follow_timeline [OF r c n tm rg] by blast+
  show ?thesis
    unfolding a b ch i t by simp
qed

text \<open>
  The claim as it is written, with the sum of the durations taken exactly, fails by the
  rounding of the additions.  Three chunks arrive while the output time is 0; the first
  lasts 0.1 s and the second 0.7 s (the numbers so written).  The third chunk starts at
  the cursor, which is the rounded sum of these two durations: it is a number below their
  sum.
\<close>

theorem rounded_cursor_counterexample:
  "isTime (3602879701896397 / 2 ^ 55) \<and> isTime (3152519739159347 / 2 ^ 52)
   \<and> scheduledStarts (onmessages
        (\<lambda>b. if b = ''AAAA'' then Fulfilled (3602879701896397 / 2 ^ 55)
              else Fulfilled (3152519739159347 / 2 ^ 52))
        (initialApp\<lparr> outputAudioContext := Some 1, outputGainNode := Some 2, fresh := 3 \<rparr>)
        [(0, \<lparr> serverContent = Some \<lparr> modelTurn = Some (Content (Some [Part (Some (Some ''AAAA''))])),
                  interrupted = False, outputTranscription = None, inputTranscription = None,
                  turnComplete = False \<rparr> \<rparr>),
         (0, \<lparr> serverContent = Some \<lparr> modelTurn = Some (Content (Some [Part (Some (Some ''BBBB''))])),
                  interrupted = False, outputTranscription = None, inputTranscription = None,
                  turnComplete = False \<rparr> \<rparr>),
         (0, \<lparr> serverContent = Some \<lparr> modelTurn = Some (Content (Some [Part (Some (Some ''BBBB''))])),
                  interrupted = False, outputTranscription = None, inputTranscription = None,
                  turnComplete = False \<rparr> \<rparr>)]) ! 2
       = 7205759403792793 / 2 ^ 53
   \<and> (7205759403792793 / 2 ^ 53 :: real)
       < 3602879701896397 / 2 ^ 55 + 3152519739159347 / 2 ^ 52"
proof -
  let ?d = "\<lambda>b :: string. if b = ''AAAA'' then Fulfilled (3602879701896397 / 2 ^ 55 :: real)
              else Fulfilled (3152519739159347 / 2 ^ 52)"
  let ?s = "initialApp\<lparr> outputAudioContext := Some 1, outputGainNode := Some 2, fresh := 3 \<rparr>"
  let ?ma = "\<lparr> serverContent = Some \<lparr> modelTurn = Some (Content (Some [Part (Some (Some ''AAAA''))])),
                  interrupted = False, outputTranscription = None, inputTranscription = None,
                  turnComplete = False \<rparr> \<rparr>"
  let ?mb = "\<lparr> serverContent = Some \<lparr> modelTurn = Some (Content (Some [Part (Some (Some ''BBBB''))])),
                  interrupted = False, outputTranscription = None, inputTranscription = None,
                  turnComplete = False \<rparr> \<rparr>"
  let ?ms = "[(0 :: real, ?ma), (0, ?mb), (0, ?mb)]"
  have t1: "isTime (3602879701896397 / 2 ^ 55)"
    using double_0_1 by (simp add: isTime_def)
  have t7: "isTime (3152519739159347 / 2 ^ 52)"
    using double_0_7 by (simp add: isTime_def)
  have r: "outputAudioContext ?s \<noteq> None" "outputGainNode ?s \<noteq> None"
    by simp_all
  have ca: "chunkDuration ?d ?ma = Some (3602879701896397 / 2 ^ 55)"
    and cb: "chunkDuration ?d ?mb = Some (3152519739159347 / 2 ^ 52)"
    by (simp_all add: chunkDuration_def messageAudio_def)
  have cn: "chunkDuration ?d ?ma \<noteq> None" "chunkDuration ?d ?mb \<noteq> None"
    unfolding ca cb by simp_all
  have c: "\<forall>cm \<in> set ?ms. chunkDuration ?d (snd cm) \<noteq> None \<and> \<not> isInterrupted (snd cm)"
    using cn by (simp add: isInterrupted_def)
  have i: "scheduledStarts ?s = []" "nextStartTime ?s = 0"
    by (simp_all add: scheduledStarts_def initialApp_def)
  have ch: "map (chunkOf ?d) ?ms
              = [(0, 3602879701896397 / 2 ^ 55), (0, 3152519739159347 / 2 ^ 52),
                 (0, 3152519739159347 / 2 ^ 52)]"
    by (simp add: chunkOf_def ca cb)
  have a0: "addDouble 0 (3602879701896397 / 2 ^ 55) = 3602879701896397 / 2 ^ 55"
    using double_0_1 by (rule addDouble_0_left)
  have m1: "max (0 :: real) 0 = 0"
    and m2: "max (0 :: real) (3602879701896397 / 2 ^ 55) = 3602879701896397 / 2 ^ 55"
    and m3: "max (0 :: real) (7205759403792793 / 2 ^ 53) = 7205759403792793 / 2 ^ 53"
    by simp_all
  have st: "timelineStarts 0 [(0, 3602879701896397 / 2 ^ 55), (0, 3152519739159347 / 2 ^ 52),
                              (0, 3152519739159347 / 2 ^ 52)] ! 2
              = 7205759403792793 / 2 ^ 53"
    unfolding timelineStarts_third m1 a0 m2 addDouble_0_1_0_7 m3 ..
  have a: "scheduledStarts (onmessages ?d ?s ?ms)
             = scheduledStarts ?s @ timelineStarts (nextStartTime ?s) (map (chunkOf ?d) ?ms)"
    using onmessages_timeline [OF r c] by blast
  have third: "scheduledStarts (onmessages ?d ?s ?ms) ! 2 = 7205759403792793 / 2 ^ 53"
    unfolding a ch i using st by simp
  have below: "(7205759403792793 / 2 ^ 53 :: real)
                 < 3602879701896397 / 2 ^ 55 + 3152519739159347 / 2 ^ 52"
    by simp
  show ?thesis
    by (intro conjI; fact)
qed

section \<open>Properties of the turn segmenter\<close>

lemma fold_silenceTimeout:
  "fold (\<lambda>t. silenceTimeout) ts s = (if ts = [] then s else s\<lparr> isSilentRef := True \<rparr>)"
  by (induction ts arbitrary: s) (auto simp: silenceTimeout_def)

lemma runTimeouts_none: "timeouts s = [] \<Longrightarrow> runTimeouts now s = s"
  by (simp add: runTimeouts_def)

lemma runTimeouts_pending:
  "timeouts s = [(h, due)] \<Longrightarrow> \<not> due \<le> now \<Longrightarrow> runTimeouts now s = s"
  by (simp add: runTimeouts_def)

lemma runTimeouts_due:
  "timeouts s = [(h, due)] \<Longrightarrow> due \<le> now
     \<Longrightarrow> runTimeouts now s = s\<lparr> timeouts := [], isSilentRef := True \<rparr>"
  by (simp add: runTimeouts_def silenceTimeout_def)

lemma runTimeouts_fields [simp]:
  "silenceTimerRef (runTimeouts now s) = silenceTimerRef s"
  "timeouts (runTimeouts now s) = filter (\<lambda>(i, due). \<not> due \<le> now) (timeouts s)"
  "hasSpokenInTurnRef (runTimeouts now s) = hasSpokenInTurnRef s"
  by (simp_all add: runTimeouts_def fold_silenceTimeout)

lemma timerOwned_runTimeouts: "timerOwned s \<Longrightarrow> timerOwned (runTimeouts now s)"
  by (auto simp: timerOwned_def list_all_iff)

lemma onaudioprocess_speaking:
  assumes "rms > SILENCE_THRESHOLD"
  shows "\<not> isSilentRef (onaudioprocess now rms s)"
    and "silenceTimerRef (onaudioprocess now rms s) = None"
    and "timeouts (onaudioprocess now rms s) = timeouts (clearSilenceTimer s)"
    and "hasSpokenInTurnRef (onaudioprocess now rms s) = hasSpokenInTurnRef s"
  using assms
  by (simp_all add: onaudioprocess_def Let_def perform_def split: option.splits)

lemma onaudioprocess_suspended:
  assumes "\<not> rms > SILENCE_THRESHOLD" "isSilentRef s" "silenceTimerRef s = Some h"
  shows "onaudioprocess now rms s = s"
  using assms by (simp add: onaudioprocess_def Let_def)

lemma onaudioprocess_pending:
  assumes "\<not> rms > SILENCE_THRESHOLD" "\<not> isSilentRef s" "silenceTimerRef s = Some h"
  shows "onaudioprocess now rms s
           = (case sessionPromise s of Some p \<Rightarrow> perform [SendRealtimeInput p] s | None \<Rightarrow> s)"
  using assms by (simp add: onaudioprocess_def Let_def)

lemma onaudioprocess_starts_timer:
  assumes "\<not> rms > SILENCE_THRESHOLD" "\<not> isSilentRef s" "silenceTimerRef s = None"
    "hasSpokenInTurnRef s" "timeouts s = []"
  shows "\<not> isSilentRef (onaudioprocess now rms s)"
    and "hasSpokenInTurnRef (onaudioprocess now rms s)"
    and "silenceTimerRef (onaudioprocess now rms s) = Some (fresh s)"
    and "timeouts (onaudioprocess now rms s) = [(fresh s, now + SILENCE_DURATION_MS)]"
  using assms
  by (simp_all add: onaudioprocess_def Let_def startSilenceTimer_def perform_def
        split: option.splits)

lemma perform_fields [simp]:
  "isSilentRef (perform es s) = isSilentRef s"
  "hasSpokenInTurnRef (perform es s) = hasSpokenInTurnRef s"
  "silenceTimerRef (perform es s) = silenceTimerRef s"
  "timeouts (perform es s) = timeouts s"
  by (simp_all add: perform_def)

lemma runStates_Cons: "\<exists>ss. runStates bd s evs = s # ss"
  by (cases evs) auto

lemma suspensions_Cons:
  "suspensions (a # runStates bd b evs)
     = (if \<not> isSilentRef a \<and> isSilentRef b then 1 else 0) + suspensions (runStates bd b evs)"
proof -
  obtain ss where "runStates bd b evs = b # ss"
    using runStates_Cons by blast
  then show ?thesis by simp
qed

lemma last_runStates: "last (runStates bd s evs) = run bd s evs"
proof (induction evs arbitrary: s)
  case Nil
  then show ?case by simp
next
  case (Cons ev evs)
  obtain now e where ev: "ev = (now, e)" by (cases ev)
  obtain ss where ss: "runStates bd (handle bd now e (runTimeouts now s)) evs
                         = handle bd now e (runTimeouts now s) # ss"
    using runStates_Cons by blast
  have "last (runStates bd s (ev # evs))
          = last (runStates bd (handle bd now e (runTimeouts now s)) evs)"
    by (simp add: ev ss)
  then show ?case using Cons.IH by (simp add: ev)
qed

subsection \<open>Frames above the threshold\<close>

lemma speaking_keeps_active:
  assumes "\<forall>f \<in> set fs. snd f > SILENCE_THRESHOLD"
      and "\<not> isSilentRef s" "silenceTimerRef s = None" "timeouts s = []"
  shows "\<forall>st \<in> set (runStates bd s (frames fs)).
           \<not> isSilentRef st \<and> silenceTimerRef st = None \<and> timeouts st = []"
  using assms
proof (induction fs arbitrary: s)
  case Nil
  then show ?case by (simp add: frames_def)
next
  case (Cons f fs)
  obtain now rms where f: "f = (now, rms)" by (cases f)
  have rms: "rms > SILENCE_THRESHOLD" using Cons.prems(1) f by simp
  have rt: "runTimeouts now s = s"
    using Cons.prems(4) by (rule runTimeouts_none)
  let ?s' = "onaudioprocess now rms s"
  have s': "\<not> isSilentRef ?s'" "silenceTimerRef ?s' = None" "timeouts ?s' = []"
    using onaudioprocess_speaking [OF rms, of now s] Cons.prems(3,4)
    by (simp_all add: clearSilenceTimer_def)
  have rest: "\<forall>f \<in> set fs. snd f > SILENCE_THRESHOLD"
    using Cons.prems(1) by simp
  have "\<forall>st \<in> set (runStates bd ?s' (frames fs)).
           \<not> isSilentRef st \<and> silenceTimerRef st = None \<and> timeouts st = []"
    by (rule Cons.IH [OF rest s'])
  then show ?case
    using Cons.prems(2,3,4) by (simp add: frames_def f rt)
qed

text \<open>
  Claim C5, with the comparison the code makes.  For every sequence of frames whose RMS is
  each strictly greater than \<open>SILENCE_THRESHOLD\<close>: from a state in which sending is not
  suspended and no timer is set, every state the run passes through, the last one
  included, is not suspended and has no silence timer, set or pending; and from any state
  whose pending timeouts are the ref's, the same holds at the end of a sequence that is
  not empty.
\<close>

theorem speaking_frames_never_suspend:
  assumes "\<forall>f \<in> set fs. snd f > SILENCE_THRESHOLD"
  shows "(\<not> isSilentRef s \<and> silenceTimerRef s = None \<and> timeouts s = [] \<longrightarrow>
            (\<forall>st \<in> set (runStates bd s (frames fs)).
               \<not> isSilentRef st \<and> silenceTimerRef st = None \<and> timeouts st = []))
       \<and> (timerOwned s \<and> fs \<noteq> [] \<longrightarrow>
            \<not> isSilentRef (run bd s (frames fs))
          \<and> silenceTimerRef (run bd s (frames fs)) = None
          \<and> timeouts (run bd s (frames fs)) = [])"
proof (intro conjI impI)
  assume "\<not> isSilentRef s \<and> silenceTimerRef s = None \<and> timeouts s = []"
  then show "\<forall>st \<in> set (runStates bd s (frames fs)).
               \<not> isSilentRef st \<and> silenceTimerRef st = None \<and> timeouts st = []"
    using speaking_keeps_active [OF assms] by blast
next
  assume a: "timerOwned s \<and> fs \<noteq> []"
  then obtain f fs' where fs: "fs = f # fs'" by (cases fs) auto
  obtain now rms where f: "f = (now, rms)" by (cases f)
  have rms: "rms > SILENCE_THRESHOLD" using assms fs f by simp
  let ?s' = "onaudioprocess now rms (runTimeouts now s)"
  have own: "timerOwned (runTimeouts now s)"
    using a by (simp add: timerOwned_runTimeouts)
  have s': "\<not> isSilentRef ?s'" "silenceTimerRef ?s' = None" "timeouts ?s' = []"
    using onaudioprocess_speaking [OF rms, of now "runTimeouts now s"]
      clearSilenceTimer_owned [OF own]
    by simp_all
  have rest: "\<forall>f \<in> set fs'. snd f > SILENCE_THRESHOLD"
    using assms fs by simp
  have all: "\<forall>st \<in> set (runStates bd ?s' (frames fs')).
           \<not> isSilentRef st \<and> silenceTimerRef st = None \<and> timeouts st = []"
    by (rule speaking_keeps_active [OF rest s'])
  have r: "run bd s (frames fs) = last (runStates bd ?s' (frames fs'))"
    by (simp add: last_runStates fs f frames_def)
  have "last (runStates bd ?s' (frames fs')) \<in> set (runStates bd ?s' (frames fs'))"
    using runStates_Cons [of bd ?s' "frames fs'"] by (auto simp del: last_in_set intro: last_in_set)
  then have "\<not> isSilentRef (run bd s (frames fs))
          \<and> silenceTimerRef (run bd s (frames fs)) = None
          \<and> timeouts (run bd s (frames fs)) = []"
    using all r by simp
  then show "\<not> isSilentRef (run bd s (frames fs))"
    and "silenceTimerRef (run bd s (frames fs)) = None"
    and "timeouts (run bd s (frames fs)) = []"
    by simp_all
qed

text \<open>
  Three loud frames after a suspension: the first one resumes sending and clears the timer
  reference, and the state stays so.
\<close>

theorem speaking_frames_never_suspend_witness:
  "1 / 2 > SILENCE_THRESHOLD \<and> 1 / 50 > SILENCE_THRESHOLD \<and> 1 / 4 > SILENCE_THRESHOLD
   \<and> timerOwned (initialApp\<lparr> hasSpokenInTurnRef := True, isSilentRef := True,
                              silenceTimerRef := Some 1, fresh := 2 \<rparr>)
   \<and> \<not> isSilentRef (run (\<lambda>d. Fulfilled 1)
          (initialApp\<lparr> hasSpokenInTurnRef := True, isSilentRef := True,
                       silenceTimerRef := Some 1, fresh := 2 \<rparr>)
          (frames [(0, 1 / 2), (256, 1 / 50), (512, 1 / 4)]))
   \<and> silenceTimerRef (run (\<lambda>d. Fulfilled 1)
          (initialApp\<lparr> hasSpokenInTurnRef := True, isSilentRef := True,
                       silenceTimerRef := Some 1, fresh := 2 \<rparr>)
          (frames [(0, 1 / 2), (256, 1 / 50), (512, 1 / 4)])) = None
   \<and> timeouts (run (\<lambda>d. Fulfilled 1)
          (initialApp\<lparr> hasSpokenInTurnRef := True, isSilentRef := True,
                       silenceTimerRef := Some 1, fresh := 2 \<rparr>)
          (frames [(0, 1 / 2), (256, 1 / 50), (512, 1 / 4)])) = []
   \<and> \<not> isSilentRef (run (\<lambda>d. Fulfilled 1) initialApp (frames [(0, 1 / 2), (256, 1 / 50), (512, 1 / 4)]))
   \<and> timeouts (run (\<lambda>d. Fulfilled 1) initialApp (frames [(0, 1 / 2), (256, 1 / 50), (512, 1 / 4)])) = []"
proof -
  let ?fs = "[(0, 1 / 2), (256, 1 / 50), (512 :: nat, 1 / 4 :: real)]"
  let ?s = "initialApp\<lparr> hasSpokenInTurnRef := True, isSilentRef := True,
                        silenceTimerRef := Some 1, fresh := 2 \<rparr>"
  have l1: "1 / 2 > SILENCE_THRESHOLD" and l2: "1 / 50 > SILENCE_THRESHOLD"
    and l3: "1 / 4 > SILENCE_THRESHOLD"
    by (simp_all add: SILENCE_THRESHOLD_def)
  have l: "\<forall>f \<in> set ?fs. snd f > SILENCE_THRESHOLD"
    using l1 l2 l3 by simp
  have o: "timerOwned ?s"
    by (simp add: timerOwned_def initialApp_def)
  have i: "\<not> isSilentRef initialApp \<and> silenceTimerRef initialApp = None
            \<and> timeouts initialApp = []"
    by (simp add: initialApp_def)
  have ne: "timerOwned ?s \<and> ?fs \<noteq> []"
    using o by simp
  have a: "\<not> isSilentRef (run (\<lambda>d. Fulfilled 1) ?s (frames ?fs))"
    and b: "silenceTimerRef (run (\<lambda>d. Fulfilled 1) ?s (frames ?fs)) = None"
    and c: "timeouts (run (\<lambda>d. Fulfilled 1) ?s (frames ?fs)) = []"
    using speaking_frames_never_suspend [OF l, of ?s "\<lambda>d. Fulfilled 1"] ne by blast+
  have d: "\<forall>st \<in> set (runStates (\<lambda>d. Fulfilled 1) initialApp (frames ?fs)).
             \<not> isSilentRef st \<and> silenceTimerRef st = None \<and> timeouts st = []"
    using speaking_frames_never_suspend [OF l, of initialApp "\<lambda>d. Fulfilled 1"] i by blast
  obtain ss where "runStates (\<lambda>d. Fulfilled 1) initialApp (frames ?fs) = initialApp # ss"
    using runStates_Cons by blast
  then have "last (runStates (\<lambda>d. Fulfilled 1) initialApp (frames ?fs))
               \<in> set (runStates (\<lambda>d. Fulfilled 1) initialApp (frames ?fs))"
    by (simp only: last_in_set list.distinct not_False_eq_True)
  then have m: "run (\<lambda>d. Fulfilled 1) initialApp (frames ?fs)
               \<in> set (runStates (\<lambda>d. Fulfilled 1) initialApp (frames ?fs))"
    by (simp only: last_runStates)
  have e: "\<not> isSilentRef (run (\<lambda>d. Fulfilled 1) initialApp (frames ?fs))"
    and f: "timeouts (run (\<lambda>d. Fulfilled 1) initialApp (frames ?fs)) = []"
    using d m by blast+
  show ?thesis
    by (intro conjI; fact)
qed

text \<open>
  The claim as it is written, for frames whose RMS is greater than or equal to the
  threshold, fails at a frame whose RMS equals the threshold.  After the user has spoken
  in the turn, such a frame sets the silence timer; a second such frame 1500 ms later
  finds sending suspended.
\<close>

theorem threshold_frames_counterexample:
  "SILENCE_THRESHOLD \<ge> SILENCE_THRESHOLD
   \<and> timeouts (run (\<lambda>d. Fulfilled 1) initialApp
        [(0, Message 0 \<lparr> serverContent = Some \<lparr> modelTurn = None, interrupted = False,
                          outputTranscription = None,
                          inputTranscription = Some (Transcription (Some ''hello'')),
                          turnComplete = False \<rparr> \<rparr>),
         (100, AudioProcess SILENCE_THRESHOLD)]) = [(1, 1600)]
   \<and> silenceTimerRef (run (\<lambda>d. Fulfilled 1) initialApp
        [(0, Message 0 \<lparr> serverContent = Some \<lparr> modelTurn = None, interrupted = False,
                          outputTranscription = None,
                          inputTranscription = Some (Transcription (Some ''hello'')),
                          turnComplete = False \<rparr> \<rparr>),
         (100, AudioProcess SILENCE_THRESHOLD)]) = Some 1
   \<and> isSilentRef (run (\<lambda>d. Fulfilled 1) initialApp
        [(0, Message 0 \<lparr> serverContent = Some \<lparr> modelTurn = None, interrupted = False,
                          outputTranscription = None,
                          inputTranscription = Some (Transcription (Some ''hello'')),
                          turnComplete = False \<rparr> \<rparr>),
         (100, AudioProcess SILENCE_THRESHOLD),
         (1600, AudioProcess SILENCE_THRESHOLD)])"
proof -
  let ?m = "\<lparr> serverContent = Some \<lparr> modelTurn = None, interrupted = False,
              outputTranscription = None,
              inputTranscription = Some (Transcription (Some ''hello'')),
              turnComplete = False \<rparr> \<rparr>"
  have t: "trim ''hello'' \<noteq> []"
    by code_simp
  let ?s1 = "stateAfter (onmessage (\<lambda>d. Fulfilled 1) 0 ?m initialApp)"
  have s1: "hasSpokenInTurnRef ?s1" "\<not> isSilentRef ?s1" "silenceTimerRef ?s1 = None"
    "timeouts ?s1 = []" "fresh ?s1 = 1"
    using t
    by (simp_all add: onmessage_def messageAudio_def scheduleAudio_def isInterrupted_def
          isTurnComplete_def appendTranscriptions_def appendInputTranscription_def
          appendOutputTranscription_def textOrUndefined_def andThen_def dispatch_def
          Let_def initialApp_def)
  let ?s2 = "onaudioprocess 100 SILENCE_THRESHOLD ?s1"
  have n: "\<not> SILENCE_THRESHOLD > SILENCE_THRESHOLD"
    by simp
  have s2: "\<not> isSilentRef ?s2" "silenceTimerRef ?s2 = Some 1" "timeouts ?s2 = [(1, 1600)]"
    using onaudioprocess_starts_timer [OF n s1(2,3,1,4), of 100]
    by (simp_all add: s1 SILENCE_DURATION_MS_def)
  have i0: "runTimeouts 0 initialApp = initialApp"
    by (rule runTimeouts_none) (simp add: initialApp_def)
  have r1: "runTimeouts 100 ?s1 = ?s1"
    by (rule runTimeouts_none [OF s1(4)])
  have r2: "run (\<lambda>d. Fulfilled 1) initialApp [(0, Message 0 ?m), (100, AudioProcess SILENCE_THRESHOLD)]
              = ?s2"
    by (simp add: i0 r1)
  have d: "runTimeouts 1600 ?s2 = ?s2\<lparr> timeouts := [], isSilentRef := True \<rparr>"
    by (rule runTimeouts_due [OF s2(3)]) simp
  have s3: "onaudioprocess 1600 SILENCE_THRESHOLD (?s2\<lparr> timeouts := [], isSilentRef := True \<rparr>)
              = ?s2\<lparr> timeouts := [], isSilentRef := True \<rparr>"
    by (rule onaudioprocess_suspended [OF n, of _ 1]) (simp_all add: s2)
  have r3: "run (\<lambda>d. Fulfilled 1) initialApp
              [(0, Message 0 ?m), (100, AudioProcess SILENCE_THRESHOLD),
               (1600, AudioProcess SILENCE_THRESHOLD)]
              = ?s2\<lparr> timeouts := [], isSilentRef := True \<rparr>"
    by (simp add: i0 r1 d s3)
  show ?thesis
    unfolding r2 r3 using s2 by simp
qed

subsection \<open>Silence\<close>

lemma silent_suspended:
  assumes "\<forall>f \<in> set fs. \<not> snd f > SILENCE_THRESHOLD"
      and "isSilentRef s" "silenceTimerRef s = Some h" "timeouts s = []"
  shows "suspensions (runStates bd s (frames fs)) = 0 \<and> run bd s (frames fs) = s"
  using assms(1)
proof (induction fs)
  case Nil
  then show ?case by (simp add: frames_def)
next
  case (Cons f fs)
  obtain now rms where f: "f = (now, rms)" by (cases f)
  have rms: "\<not> rms > SILENCE_THRESHOLD" using Cons.prems f by simp
  have rt: "runTimeouts now s = s"
    using assms(4) by (rule runTimeouts_none)
  have h: "onaudioprocess now rms s = s"
    by (rule onaudioprocess_suspended [OF rms assms(2,3)])
  have ih: "suspensions (runStates bd s (frames fs)) = 0 \<and> run bd s (frames fs) = s"
    using Cons by simp
  have "runStates bd s (frames (f # fs)) = s # s # runStates bd s (frames fs)"
    by (simp add: frames_def f rt h)
  then have "suspensions (runStates bd s (frames (f # fs)))
               = suspensions (s # runStates bd s (frames fs))"
    using assms(2) by simp
  also have "\<dots> = suspensions (runStates bd s (frames fs))"
    using assms(2) by (simp add: suspensions_Cons)
  finally show ?case
    using ih by (simp add: frames_def f rt h)
qed

lemma silent_pending:
  assumes "\<forall>f \<in> set fs. \<not> snd f > SILENCE_THRESHOLD"
      and "\<not> isSilentRef s" "silenceTimerRef s = Some h" "timeouts s = [(h, due)]"
  shows "suspensions (runStates bd s (frames fs)) = (if \<exists>f \<in> set fs. due \<le> fst f then 1 else 0)
       \<and> isSilentRef (run bd s (frames fs)) = (\<exists>f \<in> set fs. due \<le> fst f)"
  using assms
proof (induction fs arbitrary: s)
  case Nil
  then show ?case by (simp add: frames_def)
next
  case (Cons f fs)
  obtain now rms where f: "f = (now, rms)" by (cases f)
  have rms: "\<not> rms > SILENCE_THRESHOLD" using Cons.prems(1) f by simp
  have rest: "\<forall>f \<in> set fs. \<not> snd f > SILENCE_THRESHOLD"
    using Cons.prems(1) by simp
  show ?case
  proof (cases "due \<le> now")
    case True
    let ?s1 = "s\<lparr> timeouts := [], isSilentRef := True \<rparr>"
    have rt: "runTimeouts now s = ?s1"
      by (rule runTimeouts_due [OF Cons.prems(4) True])
    have h: "onaudioprocess now rms ?s1 = ?s1"
      by (rule onaudioprocess_suspended [OF rms, of _ h]) (simp_all add: Cons.prems(3))
    have sus: "suspensions (runStates bd ?s1 (frames fs)) = 0 \<and> run bd ?s1 (frames fs) = ?s1"
      by (rule silent_suspended [OF rest, of _ h]) (simp_all add: Cons.prems(3))
    have "runStates bd s (frames (f # fs)) = s # ?s1 # runStates bd ?s1 (frames fs)"
      by (simp add: frames_def f rt h)
    then have "suspensions (runStates bd s (frames (f # fs)))
                 = 1 + suspensions (?s1 # runStates bd ?s1 (frames fs))"
      using Cons.prems(2) by simp
    also have "\<dots> = 1"
      using sus by (simp add: suspensions_Cons)
    finally have one: "suspensions (runStates bd s (frames (f # fs))) = 1" .
    have "run bd s (frames (f # fs)) = ?s1"
      using sus by (simp add: frames_def f rt h)
    then show ?thesis
      using one True by (simp add: f)
  next
    case False
    let ?s1 = "case sessionPromise s of Some p \<Rightarrow> perform [SendRealtimeInput p] s | None \<Rightarrow> s"
    have rt: "runTimeouts now s = s"
      by (rule runTimeouts_pending [OF Cons.prems(4) False])
    have h: "onaudioprocess now rms s = ?s1"
      by (rule onaudioprocess_pending [OF rms Cons.prems(2,3)])
    have s1: "\<not> isSilentRef ?s1" "silenceTimerRef ?s1 = Some h" "timeouts ?s1 = [(h, due)]"
      using Cons.prems(2,3,4) by (simp_all split: option.splits)
    have ih: "suspensions (runStates bd ?s1 (frames fs))
                = (if \<exists>f \<in> set fs. due \<le> fst f then 1 else 0)
            \<and> isSilentRef (run bd ?s1 (frames fs)) = (\<exists>f \<in> set fs. due \<le> fst f)"
      by (rule Cons.IH [OF rest s1])
    have "runStates bd s (frames (f # fs)) = s # s # runStates bd ?s1 (frames fs)"
      by (simp add: frames_def f rt h)
    then have "suspensions (runStates bd s (frames (f # fs)))
                 = suspensions (s # runStates bd ?s1 (frames fs))"
      by simp
    also have "\<dots> = suspensions (runStates bd ?s1 (frames fs))"
      using s1(1) by (simp add: suspensions_Cons)
    finally have sus: "suspensions (runStates bd s (frames (f # fs)))
                         = suspensions (runStates bd ?s1 (frames fs))" .
    have "run bd s (frames (f # fs)) = run bd ?s1 (frames fs)"
      by (simp add: frames_def f rt h)
    then show ?thesis
      using sus ih False by (simp add: f)
  qed
qed

lemma silence_suspends_once:
  assumes "\<forall>f \<in> set fs. \<not> snd f > SILENCE_THRESHOLD"
      and "hasSpokenInTurnRef s" "\<not> isSilentRef s" "silenceTimerRef s = None" "timeouts s = []"
      and "fs \<noteq> []" "fst (hd fs) + SILENCE_DURATION_MS \<le> fst (last fs)"
  shows "suspensions (runStates bd s (frames fs)) = 1 \<and> isSilentRef (run bd s (frames fs))"
proof -
  obtain f fs' where fs: "fs = f # fs'" using assms(6) by (cases fs) auto
  obtain now rms where f: "f = (now, rms)" by (cases f)
  have rms: "\<not> rms > SILENCE_THRESHOLD" using assms(1) fs f by simp
  have rest: "\<forall>f \<in> set fs'. \<not> snd f > SILENCE_THRESHOLD"
    using assms(1) fs by simp
  have ne: "fs' \<noteq> []"
    using assms(7) by (auto simp: fs f SILENCE_DURATION_MS_def)
  then have "last fs' \<in> set fs'" "last fs = last fs'"
    by (simp_all add: fs)
  then have late: "\<exists>g \<in> set fs'. now + SILENCE_DURATION_MS \<le> fst g"
    using assms(7) by (auto simp: fs f)
  let ?s1 = "onaudioprocess now rms s"
  have rt: "runTimeouts now s = s"
    using assms(5) by (rule runTimeouts_none)
  note s1 = onaudioprocess_starts_timer [OF rms assms(3,4,2,5), of now]
  have p: "suspensions (runStates bd ?s1 (frames fs'))
             = (if \<exists>g \<in> set fs'. now + SILENCE_DURATION_MS \<le> fst g then 1 else 0)
         \<and> isSilentRef (run bd ?s1 (frames fs'))
             = (\<exists>g \<in> set fs'. now + SILENCE_DURATION_MS \<le> fst g)"
    by (rule silent_pending [OF rest s1(1,3,4)])
  have "runStates bd s (frames fs) = s # s # runStates bd ?s1 (frames fs')"
    by (simp add: frames_def fs f rt)
  then have "suspensions (runStates bd s (frames fs))
               = suspensions (s # runStates bd ?s1 (frames fs'))"
    by simp
  also have "\<dots> = suspensions (runStates bd ?s1 (frames fs'))"
    using s1(1) by (simp add: suspensions_Cons)
  finally have a: "suspensions (runStates bd s (frames fs)) = 1"
    using p late by simp
  have "run bd s (frames fs) = run bd ?s1 (frames fs')"
    by (simp add: frames_def fs f rt)
  then have b: "isSilentRef (run bd s (frames fs))"
    using p late by simp
  show ?thesis using a b by simp
qed

lemma speaking_cancels_pending:
  assumes "rms > SILENCE_THRESHOLD"
      and "hasSpokenInTurnRef s" "silenceTimerRef s = Some h" "timeouts s = [(h, due)]"
      and "now < due"
  shows "silenceTimerRef (run bd s (frames [(now, rms)])) = None
       \<and> timeouts (run bd s (frames [(now, rms)])) = []
       \<and> \<not> isSilentRef (run bd s (frames [(now, rms)]))
       \<and> hasSpokenInTurnRef (run bd s (frames [(now, rms)]))"
proof -
  have rt: "runTimeouts now s = s"
    using assms(4,5) by (intro runTimeouts_pending) auto
  have own: "timerOwned s"
    using assms(3,4) by (simp add: timerOwned_def)
  have r: "run bd s (frames [(now, rms)]) = onaudioprocess now rms s"
    by (simp add: frames_def rt)
  show ?thesis
    unfolding r
    using onaudioprocess_speaking [OF assms(1), of now s] clearSilenceTimer_owned [OF own] assms(2)
    by simp
qed

text \<open>
  Claim C6, with the comparison the code makes.  From a state in which the user has spoken
  in the turn, sending is not suspended and no timer is set: for every sequence of frames
  whose RMS is each not above \<open>SILENCE_THRESHOLD\<close> and whose last frame comes at least
  \<open>SILENCE_DURATION_MS\<close> after the first, sending becomes suspended exactly once along the
  run and is suspended at its end.  And while the timer is pending, one frame whose RMS is
  strictly greater than the threshold clears the timer and leaves the segmenter active:
  the user has spoken, sending is not suspended, no timer is set or pending.
\<close>

theorem silence_suspends_exactly_once:
  "((\<forall>f \<in> set fs. \<not> snd f > SILENCE_THRESHOLD)
      \<and> hasSpokenInTurnRef s \<and> \<not> isSilentRef s \<and> silenceTimerRef s = None \<and> timeouts s = []
      \<and> fs \<noteq> [] \<and> fst (hd fs) + SILENCE_DURATION_MS \<le> fst (last fs)
    \<longrightarrow> suspensions (runStates bd s (frames fs)) = 1 \<and> isSilentRef (run bd s (frames fs)))
   \<and> (rms > SILENCE_THRESHOLD
      \<and> hasSpokenInTurnRef p \<and> \<not> isSilentRef p \<and> silenceTimerRef p = Some h
      \<and> timeouts p = [(h, due)] \<and> now < due
    \<longrightarrow> silenceTimerRef (run bd p (frames [(now, rms)])) = None
      \<and> timeouts (run bd p (frames [(now, rms)])) = []
      \<and> \<not> isSilentRef (run bd p (frames [(now, rms)]))
      \<and> hasSpokenInTurnRef (run bd p (frames [(now, rms)])))"
proof (intro conjI impI)
  assume a: "(\<forall>f \<in> set fs. \<not> snd f > SILENCE_THRESHOLD)
      \<and> hasSpokenInTurnRef s \<and> \<not> isSilentRef s \<and> silenceTimerRef s = None \<and> timeouts s = []
      \<and> fs \<noteq> [] \<and> fst (hd fs) + SILENCE_DURATION_MS \<le> fst (last fs)"
  have "suspensions (runStates bd s (frames fs)) = 1 \<and> isSilentRef (run bd s (frames fs))"
    by (rule silence_suspends_once) (use a in blast)+
  then show "suspensions (runStates bd s (frames fs)) = 1"
    and "isSilentRef (run bd s (frames fs))"
    by blast+
next
  assume b: "rms > SILENCE_THRESHOLD
      \<and> hasSpokenInTurnRef p \<and> \<not> isSilentRef p \<and> silenceTimerRef p = Some h
      \<and> timeouts p = [(h, due)] \<and> now < due"
  have "silenceTimerRef (run bd p (frames [(now, rms)])) = None
       \<and> timeouts (run bd p (frames [(now, rms)])) = []
       \<and> \<not> isSilentRef (run bd p (frames [(now, rms)]))
       \<and> hasSpokenInTurnRef (run bd p (frames [(now, rms)]))"
    by (rule speaking_cancels_pending [of rms p h due now bd]) (use b in blast)+
  then show "silenceTimerRef (run bd p (frames [(now, rms)])) = None"
    and "timeouts (run bd p (frames [(now, rms)])) = []"
    and "\<not> isSilentRef (run bd p (frames [(now, rms)]))"
    and "hasSpokenInTurnRef (run bd p (frames [(now, rms)]))"
    by blast+
qed

text \<open>
  Silence from time 0 to time 1756 after the user has spoken: one suspension.  And a loud
  frame at time 700, while the timer set at time 0 is pending.
\<close>

theorem silence_suspends_exactly_once_witness:
  "0 \<le> SILENCE_THRESHOLD \<and> 1 / 1000 \<le> SILENCE_THRESHOLD
   \<and> fst (hd [(0 :: nat, 0 :: real), (256, 1 / 1000), (1500, 0), (1756, 0)]) + SILENCE_DURATION_MS
       \<le> fst (last [(0 :: nat, 0 :: real), (256, 1 / 1000), (1500, 0), (1756, 0)])
   \<and> suspensions (runStates (\<lambda>d. Fulfilled 1) (initialApp\<lparr> hasSpokenInTurnRef := True \<rparr>)
        (frames [(0, 0), (256, 1 / 1000), (1500, 0), (1756, 0)])) = 1
   \<and> isSilentRef (run (\<lambda>d. Fulfilled 1) (initialApp\<lparr> hasSpokenInTurnRef := True \<rparr>)
        (frames [(0, 0), (256, 1 / 1000), (1500, 0), (1756, 0)]))
   \<and> 1 / 2 > SILENCE_THRESHOLD
   \<and> silenceTimerRef (run (\<lambda>d. Fulfilled 1)
        (initialApp\<lparr> hasSpokenInTurnRef := True, silenceTimerRef := Some 1,
                     timeouts := [(1, 1500)], fresh := 2 \<rparr>)
        (frames [(700, 1 / 2)])) = None
   \<and> timeouts (run (\<lambda>d. Fulfilled 1)
        (initialApp\<lparr> hasSpokenInTurnRef := True, silenceTimerRef := Some 1,
                     timeouts := [(1, 1500)], fresh := 2 \<rparr>)
        (frames [(700, 1 / 2)])) = []
   \<and> \<not> isSilentRef (run (\<lambda>d. Fulfilled 1)
        (initialApp\<lparr> hasSpokenInTurnRef := True, silenceTimerRef := Some 1,
                     timeouts := [(1, 1500)], fresh := 2 \<rparr>)
        (frames [(700, 1 / 2)]))"
proof -
  let ?fs = "[(0 :: nat, 0 :: real), (256, 1 / 1000), (1500, 0), (1756, 0)]"
  let ?s = "initialApp\<lparr> hasSpokenInTurnRef := True \<rparr>"
  let ?p = "initialApp\<lparr> hasSpokenInTurnRef := True, silenceTimerRef := Some 1,
                        timeouts := [(1, 1500)], fresh := 2 \<rparr>"
  have q0: "0 \<le> SILENCE_THRESHOLD" and q1: "1 / 1000 \<le> SILENCE_THRESHOLD"
    by (simp_all add: SILENCE_THRESHOLD_def)
  have q: "\<forall>f \<in> set ?fs. \<not> snd f > SILENCE_THRESHOLD"
    using q0 q1 by simp
  have l: "fst (hd ?fs) + SILENCE_DURATION_MS \<le> fst (last ?fs)"
    by (simp add: SILENCE_DURATION_MS_def)
  have hs: "(\<forall>f \<in> set ?fs. \<not> snd f > SILENCE_THRESHOLD)
      \<and> hasSpokenInTurnRef ?s \<and> \<not> isSilentRef ?s \<and> silenceTimerRef ?s = None \<and> timeouts ?s = []
      \<and> ?fs \<noteq> [] \<and> fst (hd ?fs) + SILENCE_DURATION_MS \<le> fst (last ?fs)"
    using q l by (simp add: initialApp_def)
  have loud: "1 / 2 > SILENCE_THRESHOLD"
    by (simp add: SILENCE_THRESHOLD_def)
  have hp: "1 / 2 > SILENCE_THRESHOLD
      \<and> hasSpokenInTurnRef ?p \<and> \<not> isSilentRef ?p \<and> silenceTimerRef ?p = Some 1
      \<and> timeouts ?p = [(1, 1500)] \<and> (700 :: nat) < 1500"
    using loud by (simp add: initialApp_def)
  note t = silence_suspends_exactly_once
    [of ?fs ?s "\<lambda>d. Fulfilled 1" "1 / 2" ?p 1 1500 700]
  have a: "suspensions (runStates (\<lambda>d. Fulfilled 1) ?s (frames ?fs)) = 1"
    and b: "isSilentRef (run (\<lambda>d. Fulfilled 1) ?s (frames ?fs))"
    using t hs by blast+
  have c: "silenceTimerRef (run (\<lambda>d. Fulfilled 1) ?p (frames [(700, 1 / 2)])) = None"
    and d: "timeouts (run (\<lambda>d. Fulfilled 1) ?p (frames [(700, 1 / 2)])) = []"
    and e: "\<not> isSilentRef (run (\<lambda>d. Fulfilled 1) ?p (frames [(700, 1 / 2)]))"
    using t hp by blast+
  show ?thesis
    by (intro conjI; fact)
qed

text \<open>
  The claim as it is written, for a frame whose RMS is at or above the threshold, fails
  at a frame whose RMS equals the threshold: while the timer set at time 0 is pending, such
  a frame at time 700 leaves the timer set and pending.
\<close>

theorem threshold_frame_keeps_timer_counterexample:
  "SILENCE_THRESHOLD \<ge> SILENCE_THRESHOLD
   \<and> hasSpokenInTurnRef (initialApp\<lparr> hasSpokenInTurnRef := True, silenceTimerRef := Some 1,
                                      timeouts := [(1, 1500)], fresh := 2 \<rparr>)
   \<and> \<not> isSilentRef (initialApp\<lparr> hasSpokenInTurnRef := True, silenceTimerRef := Some 1,
                                   timeouts := [(1, 1500)], fresh := 2 \<rparr>)
   \<and> silenceTimerRef (run (\<lambda>d. Fulfilled 1)
        (initialApp\<lparr> hasSpokenInTurnRef := True, silenceTimerRef := Some 1,
                     timeouts := [(1, 1500)], fresh := 2 \<rparr>)
        (frames [(700, SILENCE_THRESHOLD)])) = Some 1
   \<and> timeouts (run (\<lambda>d. Fulfilled 1)
        (initialApp\<lparr> hasSpokenInTurnRef := True, silenceTimerRef := Some 1,
                     timeouts := [(1, 1500)], fresh := 2 \<rparr>)
        (frames [(700, SILENCE_THRESHOLD)])) = [(1, 1500)]"
proof -
  let ?p = "initialApp\<lparr> hasSpokenInTurnRef := True, silenceTimerRef := Some 1,
                        timeouts := [(1, 1500)], fresh := 2 \<rparr>"
  have n: "\<not> SILENCE_THRESHOLD > SILENCE_THRESHOLD"
    by simp
  have p: "hasSpokenInTurnRef ?p" "\<not> isSilentRef ?p" "silenceTimerRef ?p = Some 1"
    "timeouts ?p = [(1, 1500)]" "sessionPromise ?p = None"
    by (simp_all add: initialApp_def)
  have rt: "runTimeouts 700 ?p = ?p"
    by (rule runTimeouts_pending [OF p(4)]) simp
  have h: "onaudioprocess 700 SILENCE_THRESHOLD ?p = ?p"
    using onaudioprocess_pending [OF n p(2,3), of 700] p(5) by simp
  have r: "run (\<lambda>d. Fulfilled 1) ?p (frames [(700, SILENCE_THRESHOLD)]) = ?p"
    by (simp only: frames_def list.map prod.case run.simps handle.simps rt h)
  show ?thesis
    unfolding r using p by simp
qed

section \<open>The pending timeouts are the ref's, in every run\<close>

lemma timerOwned_empty:
  "timeouts s = [] \<Longrightarrow> timerOwned s"
  by (simp add: timerOwned_def)

lemma timerOwned_cong:
  "timeouts s' = timeouts s \<Longrightarrow> silenceTimerRef s' = silenceTimerRef s
     \<Longrightarrow> timerOwned s \<Longrightarrow> timerOwned s'"
  by (simp add: timerOwned_def)

lemma timerOwned_onaudioprocess:
  assumes "timerOwned s"
  shows "timerOwned (onaudioprocess now rms s)"
proof (cases "rms > SILENCE_THRESHOLD")
  case True
  have "timeouts (onaudioprocess now rms s) = []"
    using onaudioprocess_speaking(3) [OF True, of now s] clearSilenceTimer_owned [OF assms]
    by simp
  then show ?thesis by (rule timerOwned_empty)
next
  case False
  show ?thesis
  proof (cases "hasSpokenInTurnRef s \<and> silenceTimerRef s = None")
    case True
    then have "timeouts s = []"
      using assms timerOwned_None by blast
    then show ?thesis
      using False True
      by (simp add: onaudioprocess_def Let_def startSilenceTimer_def timerOwned_def perform_def
            split: option.splits)
  next
    case no: False
    have "timeouts (onaudioprocess now rms s) = timeouts s"
      "silenceTimerRef (onaudioprocess now rms s) = silenceTimerRef s"
      using False no by (auto simp: onaudioprocess_def Let_def split: option.splits)
    then show ?thesis
      using assms by (rule timerOwned_cong)
  qed
qed

lemma timerOwned_finalizeTurn:
  assumes "timerOwned s"
  shows "timerOwned (finalizeTurn s)"
proof -
  have "timeouts (finalizeTurn s) = []"
    using assms
    by (cases "silenceTimerRef s")
       (simp_all add: finalizeTurn_timeouts timerOwned_None timerOwned_Some)
  then show ?thesis by (rule timerOwned_empty)
qed

text \<open>Also a handler that throws leaves the timer as it was.\<close>

lemma timerOwned_onmessage:
  assumes "timerOwned s"
  shows "timerOwned (stateAfter (onmessage bd ct m s))"
proof (cases "messageAudio m")
  case (Inl e)
  then show ?thesis using assms by (simp add: onmessage_def)
next
  case (Inr a)
  have sf: "timeouts (stateAfter (scheduleAudio bd ct a s)) = timeouts s"
    "silenceTimerRef (stateAfter (scheduleAudio bd ct a s)) = silenceTimerRef s"
    by simp_all
  show ?thesis
  proof (cases "scheduleAudio bd ct a s")
    case (Aborted s1)
    have "timerOwned s1"
      using sf assms unfolding Aborted stateAfter.simps by (rule timerOwned_cong)
    then show ?thesis using Inr Aborted by (simp add: onmessage_def andThen_def)
  next
    case (Completed s1)
    let ?x = "if isInterrupted m then stopPlayback s1 else s1"
    have s1: "timeouts s1 = timeouts s" "silenceTimerRef s1 = silenceTimerRef s"
      using sf unfolding Completed stateAfter.simps by simp_all
    have x: "timeouts ?x = timeouts s" "silenceTimerRef ?x = silenceTimerRef s"
      using s1 by simp_all
    have af: "timeouts (stateAfter (appendTranscriptions m ?x)) = timeouts s"
      "silenceTimerRef (stateAfter (appendTranscriptions m ?x)) = silenceTimerRef s"
      using x by (simp_all only: appendTranscriptions_fields)
    show ?thesis
    proof (cases "appendTranscriptions m ?x")
      case (Aborted s3)
      have "timerOwned s3"
        using af assms unfolding Aborted stateAfter.simps by (rule timerOwned_cong)
      then show ?thesis
        using Inr Completed Aborted by (simp add: onmessage_def andThen_def)
    next
      case c3: (Completed s3)
      have own: "timerOwned s3"
        using af assms unfolding c3 stateAfter.simps by (rule timerOwned_cong)
      have "timerOwned (if isTurnComplete m then finalizeTurn s3 else s3)"
        using own by (simp add: timerOwned_finalizeTurn)
      then show ?thesis
        using Inr Completed c3 by (simp add: onmessage_def andThen_def)
    qed
  qed
qed

lemma cleanupAudio_timeouts:
  "timeouts (cleanupAudio s) = timeouts (clearSilenceTimer s)"
  by (simp add: cleanupAudio_def Let_def perform_def stopPlayback_def split: option.splits)

lemma timerOwned_handle:
  assumes "timerOwned s"
  shows "timerOwned (handle bd now ev s)"
proof (cases ev)
  case (AudioProcess rms)
  then show ?thesis using assms by (simp add: timerOwned_onaudioprocess)
next
  case (Message ct m)
  then show ?thesis using assms by (simp add: timerOwned_onmessage)
next
  case (Ended source)
  then show ?thesis using assms by (simp add: sourceEnded_def timerOwned_def)
next
  case Cleanup
  have "timeouts (cleanupAudio s) = []"
    using clearSilenceTimer_owned [OF assms] by (simp add: cleanupAudio_timeouts)
  then show ?thesis
    using Cleanup by (simp add: timerOwned_empty)
next
  case (SessionSettled p fulfilled)
  then show ?thesis using assms by (simp add: sessionSettled_def perform_def timerOwned_def)
qed

lemma timerOwned_run:
  "timerOwned s \<Longrightarrow> timerOwned (run bd s evs)"
proof (induction evs arbitrary: s)
  case Nil
  then show ?case by simp
next
  case (Cons ev evs)
  obtain now e where ev: "ev = (now, e)" by (cases ev)
  have "timerOwned (handle bd now e (runTimeouts now s))"
    using Cons.prems by (intro timerOwned_handle timerOwned_runTimeouts)
  then show ?case
    using Cons.IH by (simp add: ev)
qed

lemma timerOwned_reachable: "timerOwned (run bd initialApp evs)"
  by (rule timerOwned_run) (simp add: timerOwned_def initialApp_def)

end
